theory Spec2Isabelle
  imports
    Main
    "HOL-Library.Char_ord"
    "HOL-Library.List_Lexorder"
    "HOL-Library.Product_Lexorder"
    "HOL-Library.Multiset"
begin

section \<open>The task queue of claude-tasker\<close>

text \<open>
  A shallow embedding of \<^verbatim>\<open>ClaudeTaskManager\<close> (src/task-manager.py), of the part of
  \<^verbatim>\<open>ClaudeSDKExecutor.execute_task_autonomously\<close> (src/claude-sdk-executor.py) that turns
  an exception into a result dictionary, and of the status route of src/web-server.py.

  The queue is a JSON-lines file. Every method opens the file, reads it line by line and,
  for a mutation, writes it again. The model keeps the two files of the task store as
  lists of lines, with whether the last line ends in a newline, and passes them through
  every operation. The clock (\<^verbatim>\<open>time.time()\<close>, \<^verbatim>\<open>datetime.now().isoformat()\<close>) is an
  input of the operation that reads it, one value for each reading. \<^verbatim>\<open>_log\<close> prints and
  appends to execution.log only; that file is not part of the task store and is left
  out. Floating point numbers are not modelled.
\<close>

subsection \<open>Data\<close>

text \<open>
  The dictionary returned by \<^verbatim>\<open>execute_task_autonomously\<close>: the keys of the success
  dictionary (lines 84-90) and of the failure dictionary (lines 94-98). A key that a
  dictionary does not hold is \<open>None\<close>.
\<close>

record exec_result =
  res_success :: bool
  res_response :: "string option"
  res_actions_executed :: "int option"
  res_results :: "string list option"
  res_error :: "string option"
  res_execution_time :: string

text \<open>
  A task dictionary: the ten keys \<^verbatim>\<open>add_task\<close> writes (key \<^verbatim>\<open>id\<close> is \<open>task_id\<close> here,
  \<open>id\<close> being the identity function of HOL), and the keys that callers of
  \<^verbatim>\<open>update_task_status\<close> add through \<^verbatim>\<open>**kwargs\<close>, absent (\<open>None\<close>) until then.
  Timestamps are the ISO strings the code stores and compares.
\<close>

record task_obj =
  task_id :: string
  task :: string
  priority :: int
  tags :: "string list"
  description :: string
  status :: string
  created_at :: string
  attempts :: int
  estimated_duration :: "int option"
  dependencies :: "string list"
  started_at :: "string option"
  completed_at :: "string option"
  failed_at :: "string option"
  error :: "string option"
  execution_result :: "exec_result option"
  actions_executed :: "int option"
  duration :: "int option"

text \<open>
  A JSON value that is not a task dictionary. \<open>Not_dict m\<close> is a value that is not a
  dictionary (a number, a string, a list, \<^verbatim>\<open>true\<close>, \<^verbatim>\<open>false\<close>, \<^verbatim>\<open>null\<close>); subscripting it
  with a string raises a \<^verbatim>\<open>TypeError\<close>, of message \<open>m\<close>. \<open>No_keys\<close> is a dictionary
  that holds none of the keys the code reads (\<^verbatim>\<open>id\<close>, \<^verbatim>\<open>status\<close>, \<^verbatim>\<open>priority\<close>,
  \<^verbatim>\<open>created_at\<close>), such as \<^verbatim>\<open>{}\<close>; subscripting it with one of them raises a
  \<^verbatim>\<open>KeyError\<close>. A dictionary that holds some of the keys of a task dictionary and not all
  of them, or values of other types under them, is outside the model.
\<close>

datatype other = Not_dict string | No_keys

text \<open>
  One line of a JSON-lines file. \<open>Blank\<close> is a line whose \<^verbatim>\<open>strip()\<close> is empty,
  \<open>Json t\<close> the line \<^verbatim>\<open>json.dumps(t)\<close>, \<open>Other v\<close> a line that \<^verbatim>\<open>json.loads\<close> turns
  into a value that is not a task dictionary, and \<open>Malformed m\<close> a non-blank line that
  \<^verbatim>\<open>json.loads\<close> rejects, \<open>m\<close> being the message of the \<^verbatim>\<open>JSONDecodeError\<close>.
\<close>

datatype line = Blank | Json task_obj | Other other | Malformed string

datatype py_error = JSONDecodeError string | KeyError string | TypeError string | IndexError

text \<open>\<^verbatim>\<open>str(e)\<close>; for a \<^verbatim>\<open>KeyError\<close> it is the key between single quotes.\<close>

fun error_str :: "py_error \<Rightarrow> string" where
  "error_str (JSONDecodeError m) = m"
| "error_str (KeyError k) = [CHR 0x27] @ k @ [CHR 0x27]"
| "error_str (TypeError m) = m"
| "error_str IndexError = ''list index out of range''"

text \<open>The exception of \<^verbatim>\<open>v[k]\<close> for a value \<open>v\<close> that is not a task dictionary.\<close>

fun subscript :: "other \<Rightarrow> string \<Rightarrow> py_error" where
  "subscript (Not_dict m) k = TypeError m"
| "subscript No_keys k = KeyError k"

text \<open>
  A file is its lines and its ending. With \<open>No_newline msg\<close> the last line has no final
  newline, so that text written in append mode continues that line; \<open>msg t\<close> is the
  message of the \<^verbatim>\<open>JSONDecodeError\<close> that \<^verbatim>\<open>json.loads\<close> raises on the last line followed by
  \<^verbatim>\<open>json.dumps(t)\<close>, when the last line is not blank. The files of the store are
  \<open>None\<close> when they do not exist.
\<close>

datatype ending = Newline | No_newline "task_obj \<Rightarrow> string"

type_synonym jsonl = "line list \<times> ending"

record fs =
  queue_file :: "jsonl option"
  completed_file :: "jsonl option"

definition lines_of :: "jsonl option \<Rightarrow> line list" where
  "lines_of f = (case f of None \<Rightarrow> [] | Some (ls, e) \<Rightarrow> ls)"

text \<open>
  What a line without final newline becomes when \<^verbatim>\<open>json.dumps(t) + '\n'\<close> is written
  after it: white space before a JSON value is ignored by \<^verbatim>\<open>json.loads\<close>, and any other
  text before it makes the line one that \<^verbatim>\<open>json.loads\<close> rejects.
\<close>

definition glue :: "line \<Rightarrow> (task_obj \<Rightarrow> string) \<Rightarrow> task_obj \<Rightarrow> line" where
  "glue l msg t = (case l of Blank \<Rightarrow> Json t | _ \<Rightarrow> Malformed (msg t))"

text \<open>
  \<^verbatim>\<open>open(path, 'a')\<close> followed by \<^verbatim>\<open>f.write(json.dumps(t) + '\n')\<close>: the file is created
  when missing, and the text goes directly after the last character of the file.
\<close>

definition append_record :: "task_obj \<Rightarrow> jsonl option \<Rightarrow> jsonl option" where
  "append_record t f =
     (case f of
        None \<Rightarrow> Some ([Json t], Newline)
      | Some (ls, Newline) \<Rightarrow> Some (ls @ [Json t], Newline)
      | Some (ls, No_newline msg) \<Rightarrow>
          if ls = [] then Some ([Json t], Newline)
          else Some (butlast ls @ [glue (last ls) msg t], Newline))"

definition newline_terminated :: "jsonl option \<Rightarrow> bool" where
  "newline_terminated f =
     (case f of None \<Rightarrow> True | Some (ls, Newline) \<Rightarrow> True
      | Some (ls, No_newline msg) \<Rightarrow> ls = [])"

text \<open>
  The reading loop of \<^verbatim>\<open>get_next_task\<close> (lines 105-109):
  \<^verbatim>\<open>for line in f: if line.strip(): task = json.loads(line); if task['status'] == 'pending': tasks.append(task)\<close>.
  The first line that does not parse, or whose value has no \<^verbatim>\<open>task['status']\<close>, raises
  out of the loop.
\<close>

fun read_tasks :: "(task_obj \<Rightarrow> bool) \<Rightarrow> line list \<Rightarrow> py_error + task_obj list" where
  "read_tasks keep [] = Inr []"
| "read_tasks keep (Blank # ls) = read_tasks keep ls"
| "read_tasks keep (Malformed m # ls) = Inl (JSONDecodeError m)"
| "read_tasks keep (Other v # ls) = Inl (subscript v ''status'')"
| "read_tasks keep (Json t # ls) =
     (case read_tasks keep ls of
        Inl e \<Rightarrow> Inl e
      | Inr ts \<Rightarrow> Inr (if keep t then t # ts else ts))"

text \<open>The task dictionaries a file holds, whatever else is on its lines.\<close>

fun records :: "line list \<Rightarrow> task_obj list" where
  "records [] = []"
| "records (Json t # ls) = t # records ls"
| "records (_ # ls) = records ls"

definition stored_tasks :: "fs \<Rightarrow> task_obj list" where
  "stored_tasks s = records (lines_of (queue_file s))"

definition archived_tasks :: "fs \<Rightarrow> task_obj list" where
  "archived_tasks s = records (lines_of (completed_file s))"

fun readable :: "line \<Rightarrow> bool" where
  "readable Blank = True"
| "readable (Json t) = True"
| "readable _ = False"

text \<open>A queue file every non-blank line of which is a task dictionary.\<close>

definition parses :: "fs \<Rightarrow> bool" where
  "parses s = list_all readable (lines_of (queue_file s))"

subsection \<open>Python's \<^verbatim>\<open>str\<close> of an integer\<close>

definition digit_char :: "nat \<Rightarrow> char" where
  "digit_char d = char_of (48 + d)"

function str_nat :: "nat \<Rightarrow> string" where
  "str_nat n = (if n < 10 then [digit_char n] else str_nat (n div 10) @ [digit_char (n mod 10)])"
  by pat_completeness auto
termination
  by (relation "measure (\<lambda>n. n)") auto

definition str_int :: "int \<Rightarrow> string" where
  "str_int i = (if i < 0 then CHR ''-'' # str_nat (nat (- i)) else str_nat (nat i))"

subsection \<open>\<^verbatim>\<open>add_task\<close> (lines 74-96)\<close>

text \<open>
  The \<^verbatim>\<open>priority\<close> argument as a caller can pass it (the web route hands over whatever
  the request body holds): an integer, a boolean, or a value that Python cannot compare
  with an integer (\<^verbatim>\<open>None\<close>, a string, a list, a dictionary), for which
  \<^verbatim>\<open>min(5, priority)\<close> raises a \<^verbatim>\<open>TypeError\<close>, of message \<open>m\<close>. A priority that is
  a floating point number is left out.
\<close>

datatype priority_arg = Int_priority int | Bool_priority bool | Not_number string

text \<open>
  The dictionary of lines 79-90 for an integer priority; \<open>now_ms\<close> is
  \<^verbatim>\<open>int(time.time() * 1000)\<close> and \<open>now\<close> is \<^verbatim>\<open>datetime.now().isoformat()\<close>.
\<close>

definition new_task :: "string \<Rightarrow> int \<Rightarrow> string list \<Rightarrow> string \<Rightarrow> int \<Rightarrow> string \<Rightarrow> task_obj" where
  "new_task tsk prio tgs descr now_ms now =
     \<lparr> task_id = ''task_'' @ str_int now_ms,
       task = tsk,
       priority = max 1 (min 5 prio),
       tags = tgs,
       description = descr,
       status = ''pending'',
       created_at = now,
       attempts = 0,
       estimated_duration = None,
       dependencies = [],
       started_at = None,
       completed_at = None,
       failed_at = None,
       error = None,
       execution_result = None,
       actions_executed = None,
       duration = None \<rparr>"

text \<open>Lines 92-96: the record is appended to the queue file and its id returned.\<close>

definition write_task :: "task_obj \<Rightarrow> fs \<Rightarrow> string \<times> fs" where
  "write_task task_obj s =
     (task_id task_obj, s\<lparr>queue_file := append_record task_obj (queue_file s)\<rparr>)"

text \<open>
  The function checks none of its arguments. A priority that is not a number raises at
  line 82, before the file is opened. Python's \<^verbatim>\<open>True\<close> and \<^verbatim>\<open>False\<close> compare as 1 and 0,
  and \<^verbatim>\<open>max(1, min(5, b))\<close> is the integer 1 for both.
\<close>

definition add_task ::
  "string \<Rightarrow> priority_arg \<Rightarrow> string list \<Rightarrow> string \<Rightarrow> int \<Rightarrow> string \<Rightarrow> fs
     \<Rightarrow> py_error + (string \<times> fs)" where
  "add_task tsk prio tgs descr now_ms now s =
     (case prio of
        Not_number m \<Rightarrow> Inl (TypeError m)
      | Int_priority p \<Rightarrow> Inr (write_task (new_task tsk p tgs descr now_ms now) s)
      | Bool_priority b \<Rightarrow>
          Inr (write_task (new_task tsk (if b then 1 else 0) tgs descr now_ms now) s))"

subsection \<open>\<^verbatim>\<open>get_next_task\<close> (lines 98-116)\<close>

text \<open>
  \<^verbatim>\<open>tasks.sort(key=lambda x: (-x['priority'], x['created_at']))\<close>: Python compares the
  key tuples lexicographically and its sort is stable, as \<open>sort_key\<close> is.
\<close>

definition next_key :: "task_obj \<Rightarrow> int \<times> string" where
  "next_key x = (- priority x, created_at x)"

definition get_next_task :: "fs \<Rightarrow> py_error + task_obj option" where
  "get_next_task s =
     (case queue_file s of
        None \<Rightarrow> Inr None
      | Some (ls, e) \<Rightarrow>
          (case read_tasks (\<lambda>t. status t = ''pending'') ls of
             Inl e \<Rightarrow> Inl e
           | Inr tasks \<Rightarrow>
               if tasks = [] then Inr None
               else (case sort_key next_key tasks of
                       [] \<Rightarrow> Inl IndexError
                     | t # _ \<Rightarrow> Inr (Some t))))"

subsection \<open>\<^verbatim>\<open>get_all_tasks\<close> (lines 118-136)\<close>

text \<open>
  What the reading loop of lines 124-128 appends. Without a status filter the loop does
  not read \<^verbatim>\<open>task['status']\<close>, so a value that is not a task dictionary is appended too.
\<close>

datatype entry = Task task_obj | Foreign other

fun read_all :: "string option \<Rightarrow> line list \<Rightarrow> py_error + entry list" where
  "read_all status_filter [] = Inr []"
| "read_all status_filter (Blank # ls) = read_all status_filter ls"
| "read_all status_filter (Malformed m # ls) = Inl (JSONDecodeError m)"
| "read_all status_filter (Other v # ls) =
     (case status_filter of
        Some st \<Rightarrow> Inl (subscript v ''status'')
      | None \<Rightarrow>
          (case read_all status_filter ls of
             Inl e \<Rightarrow> Inl e
           | Inr es \<Rightarrow> Inr (Foreign v # es)))"
| "read_all status_filter (Json t # ls) =
     (case read_all status_filter ls of
        Inl e \<Rightarrow> Inl e
      | Inr es \<Rightarrow>
          Inr (if status_filter = None \<or> Some (status t) = status_filter then Task t # es
               else es))"

text \<open>
  \<^verbatim>\<open>tasks.sort(key=lambda x: x['created_at'], reverse=True)\<close> first computes the key of
  every element, in list order; the first element without \<^verbatim>\<open>x['created_at']\<close> raises.
\<close>

fun created_keys :: "entry list \<Rightarrow> py_error + task_obj list" where
  "created_keys [] = Inr []"
| "created_keys (Foreign v # es) = Inl (subscript v ''created_at'')"
| "created_keys (Task t # es) =
     (case created_keys es of Inl e \<Rightarrow> Inl e | Inr ts \<Rightarrow> Inr (t # ts))"

text \<open>
  With \<^verbatim>\<open>reverse=True\<close> the sort keeps records with equal keys in their original order:
  it is the stable sort of the reversed list, reversed.
\<close>

definition sort_key_reverse :: "('a \<Rightarrow> 'k::linorder) \<Rightarrow> 'a list \<Rightarrow> 'a list" where
  "sort_key_reverse f xs = rev (sort_key f (rev xs))"

text \<open>The slice \<^verbatim>\<open>xs[:n]\<close>; a negative \<open>n\<close> counts from the end.\<close>

definition slice_to :: "int \<Rightarrow> 'a list \<Rightarrow> 'a list" where
  "slice_to n xs = (if n < 0 then take (nat (int (length xs) + n)) xs else take (nat n) xs)"

text \<open>
  \<^verbatim>\<open>if limit: tasks = tasks[:limit]\<close> is Python's truth test: \<^verbatim>\<open>None\<close> and \<^verbatim>\<open>0\<close> are
  both false, and the slice is taken for every other integer.
\<close>

definition get_all_tasks :: "string option \<Rightarrow> int option \<Rightarrow> fs \<Rightarrow> py_error + task_obj list" where
  "get_all_tasks status_filter limit s =
     (case (case queue_file s of
              None \<Rightarrow> Inr []
            | Some (ls, e) \<Rightarrow> read_all status_filter ls) of
        Inl e \<Rightarrow> Inl e
      | Inr entries \<Rightarrow>
          (case created_keys entries of
             Inl e \<Rightarrow> Inl e
           | Inr tasks \<Rightarrow>
               (let sorted_tasks = sort_key_reverse created_at tasks
                in Inr (case limit of
                          None \<Rightarrow> sorted_tasks
                        | Some n \<Rightarrow> if n \<noteq> 0 then slice_to n sorted_tasks else sorted_tasks))))"

subsection \<open>\<^verbatim>\<open>update_task_status\<close> (lines 138-166)\<close>

text \<open>
  The keyword arguments the callers in the repository pass: \<^verbatim>\<open>started_at\<close>,
  \<^verbatim>\<open>completed_at\<close>, \<^verbatim>\<open>execution_result\<close>, \<^verbatim>\<open>actions_executed\<close>, \<^verbatim>\<open>error\<close>, \<^verbatim>\<open>failed_at\<close>
  (the asynchronous loop) and \<^verbatim>\<open>duration\<close> (the legacy loop).
  \<^verbatim>\<open>task.update(kwargs)\<close> stores each of them under its key.
\<close>

datatype kwarg =
    Started_at string
  | Completed_at string
  | Failed_at string
  | Error string
  | Execution_result exec_result
  | Actions_executed int
  | Duration int

fun set_key :: "kwarg \<Rightarrow> task_obj \<Rightarrow> task_obj" where
  "set_key (Started_at v) t = t\<lparr>started_at := Some v\<rparr>"
| "set_key (Completed_at v) t = t\<lparr>completed_at := Some v\<rparr>"
| "set_key (Failed_at v) t = t\<lparr>failed_at := Some v\<rparr>"
| "set_key (Error v) t = t\<lparr>error := Some v\<rparr>"
| "set_key (Execution_result v) t = t\<lparr>execution_result := Some v\<rparr>"
| "set_key (Actions_executed v) t = t\<lparr>actions_executed := Some v\<rparr>"
| "set_key (Duration v) t = t\<lparr>duration := Some v\<rparr>"

text \<open>
  Lines 149-152, what the loop does to one task whose id matches; \<open>now\<close> is the value of
  \<^verbatim>\<open>datetime.now().isoformat()\<close> at line 152, which is evaluated for that task when the
  status is \<^verbatim>\<open>'completed'\<close>.
\<close>

definition touch :: "string \<Rightarrow> kwarg list \<Rightarrow> string \<Rightarrow> task_obj \<Rightarrow> task_obj" where
  "touch new_status kwargs now t =
     (let t1 = t\<lparr>status := new_status\<rparr>;
          t2 = fold set_key kwargs t1
      in if new_status = ''completed'' then t2\<lparr>completed_at := Some now\<rparr> else t2)"

text \<open>
  The loop of lines 145-154: every task is kept, a matching one is changed, and
  \<^verbatim>\<open>updated_task\<close> ends as the last match. Line 152 is inside the loop: the clock is
  read once for every matching task, and \<open>f k\<close> is the change made to the match number
  \<open>k\<close> (from 0), with the reading number \<open>k\<close>.
\<close>

fun update_lines ::
  "string \<Rightarrow> (nat \<Rightarrow> task_obj \<Rightarrow> task_obj) \<Rightarrow> nat \<Rightarrow> line list
     \<Rightarrow> py_error + (task_obj list \<times> task_obj option)" where
  "update_lines tid f k [] = Inr ([], None)"
| "update_lines tid f k (Blank # ls) = update_lines tid f k ls"
| "update_lines tid f k (Malformed m # ls) = Inl (JSONDecodeError m)"
| "update_lines tid f k (Other v # ls) = Inl (subscript v ''id'')"
| "update_lines tid f k (Json t # ls) =
     (if task_id t = tid
      then (case update_lines tid f (Suc k) ls of
              Inl e \<Rightarrow> Inl e
            | Inr (ts, later) \<Rightarrow>
                Inr (f k t # ts, (case later of None \<Rightarrow> Some (f k t) | Some u \<Rightarrow> Some u)))
      else (case update_lines tid f k ls of
              Inl e \<Rightarrow> Inl e
            | Inr (ts, later) \<Rightarrow> Inr (t # ts, later)))"

text \<open>
  \<open>clock k\<close> is the reading number \<open>k\<close> of \<^verbatim>\<open>datetime.now().isoformat()\<close> within the
  call. An exception of the reading loop leaves both files as they were: the queue file
  is opened for writing only after the loop. The rewritten file holds one line, with its
  newline, for every task.
\<close>

definition update_task_status ::
  "string \<Rightarrow> string \<Rightarrow> kwarg list \<Rightarrow> (nat \<Rightarrow> string) \<Rightarrow> fs
     \<Rightarrow> py_error + (task_obj option \<times> fs)" where
  "update_task_status tid new_status kwargs clock s =
     (case (case queue_file s of
              None \<Rightarrow> Inr ([], None)
            | Some (ls, e) \<Rightarrow>
                update_lines tid (\<lambda>k. touch new_status kwargs (clock k)) 0 ls) of
        Inl e \<Rightarrow> Inl e
      | Inr (tasks, updated_task) \<Rightarrow>
          (let s1 = s\<lparr>queue_file := Some (map Json tasks, Newline)\<rparr>
           in case updated_task of
                None \<Rightarrow> Inr (None, s1)
              | Some u \<Rightarrow>
                  if new_status = ''completed''
                  then Inr (Some u, s1\<lparr>completed_file := append_record u (completed_file s1)\<rparr>)
                  else Inr (Some u, s1)))"

subsection \<open>\<^verbatim>\<open>delete_task\<close> (lines 168-191)\<close>

fun delete_lines :: "string \<Rightarrow> line list \<Rightarrow> py_error + (task_obj list \<times> task_obj option)" where
  "delete_lines tid [] = Inr ([], None)"
| "delete_lines tid (Blank # ls) = delete_lines tid ls"
| "delete_lines tid (Malformed m # ls) = Inl (JSONDecodeError m)"
| "delete_lines tid (Other v # ls) = Inl (subscript v ''id'')"
| "delete_lines tid (Json t # ls) =
     (case delete_lines tid ls of
        Inl e \<Rightarrow> Inl e
      | Inr (ts, later) \<Rightarrow>
          if task_id t \<noteq> tid
          then Inr (t # ts, later)
          else Inr (ts, (case later of None \<Rightarrow> Some t | Some u \<Rightarrow> Some u)))"

definition delete_task :: "string \<Rightarrow> fs \<Rightarrow> py_error + (bool \<times> fs)" where
  "delete_task tid s =
     (case (case queue_file s of
              None \<Rightarrow> Inr ([], None)
            | Some (ls, e) \<Rightarrow> delete_lines tid ls) of
        Inl e \<Rightarrow> Inl e
      | Inr (tasks, deleted_task) \<Rightarrow>
          Inr (deleted_task \<noteq> None, s\<lparr>queue_file := Some (map Json tasks, Newline)\<rparr>))"

subsection \<open>The status route of the web server (src/web-server.py, lines 115-133)\<close>

text \<open>
  \<open>data_status\<close> is \<^verbatim>\<open>data['status']\<close> of the request body, \<open>None\<close> when the body has no
  such key. The route passes the status on as it is, with no keyword argument. The task
  manager is taken to be available (the route answers 500 otherwise).
\<close>

datatype reply = Reply_task task_obj | Reply_error string nat

definition api_update_task_status ::
  "string \<Rightarrow> string option \<Rightarrow> (nat \<Rightarrow> string) \<Rightarrow> fs \<Rightarrow> reply \<times> fs" where
  "api_update_task_status tid data_status clock s =
     (case data_status of
        None \<Rightarrow> (Reply_error ''Status required'' 400, s)
      | Some new_status \<Rightarrow>
          (case update_task_status tid new_status [] clock s of
             Inl e \<Rightarrow> (Reply_error (error_str e) 500, s)
           | Inr (None, s') \<Rightarrow> (Reply_error ''Task not found'' 404, s')
           | Inr (Some t, s') \<Rightarrow> (Reply_task t, s')))"

subsection \<open>\<^verbatim>\<open>execute_task_autonomously\<close> (src/claude-sdk-executor.py, lines 48-98)\<close>

text \<open>
  The body of the \<^verbatim>\<open>try\<close> block (the prompt, the API call, the parsing and running of
  the actions) is a parameter \<open>sdk\<close>: \<open>Inl m\<close> when a statement of the block raises an
  exception \<open>e\<close> with \<^verbatim>\<open>str(e)\<close> = \<open>m\<close>, and otherwise the response text, the parsed
  actions and their results. \<open>now\<close> is the clock reading of \<^verbatim>\<open>execution_time\<close>.
\<close>

record sdk_reply =
  response_content :: string
  actions :: "string list"
  action_results :: "string list"

definition execute_task_autonomously ::
  "(task_obj \<Rightarrow> string + sdk_reply) \<Rightarrow> string \<Rightarrow> task_obj \<Rightarrow> exec_result" where
  "execute_task_autonomously sdk now t =
     (case sdk t of
        Inr r \<Rightarrow>
          \<lparr> res_success = True,
            res_response = Some (response_content r),
            res_actions_executed = Some (int (length (actions r))),
            res_results = Some (action_results r),
            res_error = None,
            res_execution_time = now \<rparr>
      | Inl m \<Rightarrow>
          \<lparr> res_success = False,
            res_response = None,
            res_actions_executed = None,
            res_results = None,
            res_error = Some m,
            res_execution_time = now \<rparr>)"

subsection \<open>\<^verbatim>\<open>_async_autonomous_loop\<close> (lines 232-273)\<close>

text \<open>
  An executor is what the loop awaits at line 246: \<open>Inr\<close> the result dictionary, or
  \<open>Inl m\<close> when the call itself raises an exception with message \<open>m\<close>.
\<close>

type_synonym executor = "task_obj \<Rightarrow> string + exec_result"

text \<open>
  The clock readings of one dispatch: \<^verbatim>\<open>started_at\<close> (line 242), the
  \<^verbatim>\<open>completed_at\<close> or \<^verbatim>\<open>failed_at\<close> keyword of lines 251 and 261, the readings inside
  \<^verbatim>\<open>update_task_status\<close> (line 152, one for every record of the id), and \<^verbatim>\<open>failed_at\<close>
  of the handler (line 267).
\<close>

record run_clock =
  t_started :: string
  t_finished :: string
  t_stamped :: "nat \<Rightarrow> string"
  t_caught :: string

text \<open>
  What one pass of the loop did: the store after each call of \<^verbatim>\<open>update_task_status\<close>,
  in order, and the tasks handed to the executor.
\<close>

record iteration =
  writes :: "fs list"
  calls :: "task_obj list"

definition get_or :: "'a option \<Rightarrow> 'a \<Rightarrow> 'a" where
  "get_or v dflt = (case v of None \<Rightarrow> dflt | Some x \<Rightarrow> x)"

text \<open>
  Lines 238-268, the block under \<^verbatim>\<open>if task:\<close>. The first update is outside the
  \<^verbatim>\<open>try\<close>; an exception of an update inside it reaches the handler, which updates again.
\<close>

definition run_task :: "executor \<Rightarrow> run_clock \<Rightarrow> task_obj \<Rightarrow> fs \<Rightarrow> py_error + iteration" where
  "run_task exec clk tsk s =
     (case update_task_status (task_id tsk) ''in_progress'' [Started_at (t_started clk)]
             (t_stamped clk) s of
        Inl e \<Rightarrow> Inl e
      | Inr (_, s1) \<Rightarrow>
          (let handler = (\<lambda>m.
                 case update_task_status (task_id tsk) ''failed''
                        [Error (''SDK execution error: '' @ m), Failed_at (t_caught clk)]
                        (t_stamped clk) s1 of
                   Inl e \<Rightarrow> Inl e
                 | Inr (_, s2) \<Rightarrow> Inr \<lparr>writes = [s1, s2], calls = [tsk]\<rparr>)
           in case exec tsk of
                Inl m \<Rightarrow> handler m
              | Inr result \<Rightarrow>
                  (case (if res_success result
                         then update_task_status (task_id tsk) ''completed''
                                [Completed_at (t_finished clk), Execution_result result,
                                 Actions_executed (get_or (res_actions_executed result) 0)]
                                (t_stamped clk) s1
                         else update_task_status (task_id tsk) ''failed''
                                [Error (get_or (res_error result) ''Unknown error''),
                                 Failed_at (t_finished clk)]
                                (t_stamped clk) s1) of
                     Inl e \<Rightarrow> handler (error_str e)
                   | Inr (_, s2) \<Rightarrow> Inr \<lparr>writes = [s1, s2], calls = [tsk]\<rparr>)))"

text \<open>One pass of \<^verbatim>\<open>while True\<close>: lines 235-271.\<close>

definition poll_once :: "executor \<Rightarrow> run_clock \<Rightarrow> fs \<Rightarrow> py_error + iteration" where
  "poll_once exec clk s =
     (case get_next_task s of
        Inl e \<Rightarrow> Inl e
      | Inr None \<Rightarrow> Inr \<lparr>writes = [], calls = []\<rparr>
      | Inr (Some tsk) \<Rightarrow> run_task exec clk tsk s)"

definition store_after :: "fs \<Rightarrow> iteration \<Rightarrow> fs" where
  "store_after s it = last (s # writes it)"

text \<open>
  The loop never returns. \<open>poll_loop n\<close> is its first \<open>n\<close> passes, pass \<open>k\<close> with the
  executor behaviour \<open>execs k\<close> and the clock readings \<open>clks k\<close>; its value is the list of
  the stores written, or the exception that ends the loop.
\<close>

fun poll_loop :: "nat \<Rightarrow> (nat \<Rightarrow> executor) \<Rightarrow> (nat \<Rightarrow> run_clock) \<Rightarrow> fs \<Rightarrow> py_error + fs list" where
  "poll_loop 0 execs clks s = Inr []"
| "poll_loop (Suc n) execs clks s =
     (case poll_once (execs 0) (clks 0) s of
        Inl e \<Rightarrow> Inl e
      | Inr it \<Rightarrow>
          (case poll_loop n (\<lambda>k. execs (Suc k)) (\<lambda>k. clks (Suc k)) (store_after s it) of
             Inl e \<Rightarrow> Inl e
           | Inr tr \<Rightarrow> Inr (writes it @ tr)))"

subsection \<open>Sequences of store operations\<close>

record add_call =
  call_task :: string
  call_priority :: priority_arg
  call_tags :: "string list"
  call_description :: string
  call_ms :: int
  call_now :: string

datatype store_op =
    Add add_call
  | UpdateStatus string string "kwarg list" "nat \<Rightarrow> string"
  | Delete string

definition add_call_task :: "add_call \<Rightarrow> fs \<Rightarrow> py_error + (string \<times> fs)" where
  "add_call_task c s =
     add_task (call_task c) (call_priority c) (call_tags c) (call_description c)
       (call_ms c) (call_now c) s"

text \<open>An operation that raises leaves the store as it was.\<close>

fun apply_op :: "store_op \<Rightarrow> fs \<Rightarrow> fs" where
  "apply_op (Add c) s =
     (case add_call_task c s of Inl e \<Rightarrow> s | Inr (_, s') \<Rightarrow> s')"
| "apply_op (UpdateStatus tid st kwargs clock) s =
     (case update_task_status tid st kwargs clock s of Inl e \<Rightarrow> s | Inr (_, s') \<Rightarrow> s')"
| "apply_op (Delete tid) s =
     (case delete_task tid s of Inl e \<Rightarrow> s | Inr (_, s') \<Rightarrow> s')"

text \<open>The stores a sequence of operations goes through, the first one included.\<close>

fun store_states :: "store_op list \<Rightarrow> fs \<Rightarrow> fs list" where
  "store_states [] s = [s]"
| "store_states (op # ops) s = s # store_states ops (apply_op op s)"

definition empty_store :: fs where
  "empty_store = \<lparr>queue_file = None, completed_file = None\<rparr>"

definition add_all :: "add_call list \<Rightarrow> fs \<Rightarrow> fs" where
  "add_all cs s = fold (\<lambda>c. apply_op (Add c)) cs s"

text \<open>
  A task is identified by its id. \<open>passed_through seen ss\<close>: in the sequence \<open>ss\<close> of
  stores, every task that is \<^verbatim>\<open>completed\<close> or \<^verbatim>\<open>failed\<close> in a store was
  \<^verbatim>\<open>in_progress\<close> in an earlier store of the sequence, or its id is in \<open>seen\<close>.
\<close>

definition terminal :: "string \<Rightarrow> bool" where
  "terminal st = (st = ''completed'' \<or> st = ''failed'')"

definition in_progress_ids :: "fs \<Rightarrow> string list" where
  "in_progress_ids s = map task_id (filter (\<lambda>t. status t = ''in_progress'') (stored_tasks s))"

fun passed_through :: "string list \<Rightarrow> fs list \<Rightarrow> bool" where
  "passed_through seen [] = True"
| "passed_through seen (s # ss) =
     (list_all (\<lambda>t. terminal (status t) \<longrightarrow> task_id t \<in> set seen) (stored_tasks s)
      \<and> passed_through (seen @ in_progress_ids s) ss)"

subsection \<open>Auxiliary functions and concrete inputs\<close>

text \<open>The list \<^verbatim>\<open>tasks\<close> of \<^verbatim>\<open>get_next_task\<close> before it is sorted.\<close>

definition pending_tasks :: "fs \<Rightarrow> task_obj list" where
  "pending_tasks s = filter (\<lambda>t. status t = ''pending'') (stored_tasks s)"

text \<open>
  The task list \<^verbatim>\<open>update_task_status\<close> writes back: \<open>f\<close> on every task of the id; in
  \<open>rewrite_at\<close> the match number \<open>k\<close>, counted from the given start, is changed by \<open>f k\<close>.
\<close>

definition rewrite :: "string \<Rightarrow> (task_obj \<Rightarrow> task_obj) \<Rightarrow> task_obj list \<Rightarrow> task_obj list" where
  "rewrite tid f ts = map (\<lambda>t. if task_id t = tid then f t else t) ts"

fun rewrite_at ::
  "string \<Rightarrow> (nat \<Rightarrow> task_obj \<Rightarrow> task_obj) \<Rightarrow> nat \<Rightarrow> task_obj list \<Rightarrow> task_obj list" where
  "rewrite_at tid f k [] = []"
| "rewrite_at tid f k (t # ts) =
     (if task_id t = tid then f k t # rewrite_at tid f (Suc k) ts
      else t # rewrite_at tid f k ts)"

text \<open>The value of \<^verbatim>\<open>updated_task\<close> after the loop of \<^verbatim>\<open>update_task_status\<close>.\<close>

fun last_updated ::
  "string \<Rightarrow> (nat \<Rightarrow> task_obj \<Rightarrow> task_obj) \<Rightarrow> nat \<Rightarrow> task_obj list \<Rightarrow> task_obj option" where
  "last_updated tid f k [] = None"
| "last_updated tid f k (t # ts) =
     (if task_id t = tid
      then (case last_updated tid f (Suc k) ts of Some u \<Rightarrow> Some u | None \<Rightarrow> Some (f k t))
      else last_updated tid f k ts)"

text \<open>
  The exception that ends the reading loop of \<^verbatim>\<open>get_next_task\<close>, and of
  \<^verbatim>\<open>get_all_tasks\<close> with a status filter, if any; and the message of the first line of a
  file that \<^verbatim>\<open>json.loads\<close> rejects, if any.
\<close>

fun first_unreadable :: "line list \<Rightarrow> py_error option" where
  "first_unreadable [] = None"
| "first_unreadable (Malformed m # ls) = Some (JSONDecodeError m)"
| "first_unreadable (Other v # ls) = Some (subscript v ''status'')"
| "first_unreadable (_ # ls) = first_unreadable ls"

fun first_malformed :: "line list \<Rightarrow> string option" where
  "first_malformed [] = None"
| "first_malformed (Malformed m # ls) = Some m"
| "first_malformed (_ # ls) = first_malformed ls"

text \<open>
  The executor of the repository as the loop sees it: \<^verbatim>\<open>execute_task_autonomously\<close>
  catches every exception of its body, so the call itself returns.
\<close>

definition sdk_executor :: "(task_obj \<Rightarrow> string + sdk_reply) \<Rightarrow> string \<Rightarrow> executor" where
  "sdk_executor sdk now = (\<lambda>t. Inr (execute_task_autonomously sdk now t))"

text \<open>
  The status and keyword arguments of the second \<^verbatim>\<open>update_task_status\<close> call of a
  dispatch (lines 250-253, 259-261 and 265-267), by what the executor did.
\<close>

definition final_update :: "executor \<Rightarrow> run_clock \<Rightarrow> task_obj \<Rightarrow> string \<times> kwarg list" where
  "final_update exec clk tsk =
     (case exec tsk of
        Inl m \<Rightarrow> (''failed'', [Error (''SDK execution error: '' @ m), Failed_at (t_caught clk)])
      | Inr result \<Rightarrow>
          if res_success result
          then (''completed'',
                [Completed_at (t_finished clk), Execution_result result,
                 Actions_executed (get_or (res_actions_executed result) 0)])
          else (''failed'',
                [Error (get_or (res_error result) ''Unknown error''),
                 Failed_at (t_finished clk)]))"

text \<open>The integer that \<^verbatim>\<open>max(1, min(5, priority))\<close> clamps, when there is one.\<close>

fun priority_value :: "priority_arg \<Rightarrow> int option" where
  "priority_value (Int_priority p) = Some p"
| "priority_value (Bool_priority b) = Some (if b then 1 else 0)"
| "priority_value (Not_number m) = None"

definition new_task_of :: "add_call \<Rightarrow> task_obj" where
  "new_task_of c =
     new_task (call_task c) (case priority_value (call_priority c) of None \<Rightarrow> 0 | Some p \<Rightarrow> p)
       (call_tags c) (call_description c) (call_ms c) (call_now c)"

text \<open>Concrete tasks, stores, clocks and executors.\<close>

definition example_task :: "string \<Rightarrow> int \<Rightarrow> string \<Rightarrow> string \<Rightarrow> task_obj" where
  "example_task tid prio created st =
     (new_task ''work'' prio [] [] 0 created)\<lparr>task_id := tid, status := st\<rparr>"

definition example_queue :: fs where
  "example_queue =
     \<lparr>queue_file = Some
        ([Json (example_task ''task_1'' 5 ''2024-01-01T09:00:00'' ''completed''),
          Json (example_task ''task_2'' 2 ''2024-01-01T09:30:00'' ''pending''),
          Blank,
          Json (example_task ''task_3'' 3 ''2024-01-01T10:00:00'' ''pending''),
          Json (example_task ''task_4'' 3 ''2024-01-01T10:00:05'' ''pending'')], Newline),
      completed_file = None\<rparr>"

definition corrupt_queue :: fs where
  "corrupt_queue =
     \<lparr>queue_file = Some
        ([Json (example_task ''task_2'' 2 ''2024-01-01T09:30:00'' ''pending''),
          Malformed ''Expecting value: line 1 column 1 (char 0)'',
          Json (example_task ''task_3'' 3 ''2024-01-01T10:00:00'' ''pending'')], Newline),
      completed_file = None\<rparr>"

text \<open>A queue file whose second line is \<^verbatim>\<open>{}\<close>.\<close>

definition foreign_queue :: fs where
  "foreign_queue =
     \<lparr>queue_file = Some
        ([Json (example_task ''task_2'' 2 ''2024-01-01T09:30:00'' ''pending''),
          Other No_keys,
          Json (example_task ''task_3'' 3 ''2024-01-01T10:00:00'' ''pending'')], Newline),
      completed_file = None\<rparr>"

definition example_call :: "string \<Rightarrow> int \<Rightarrow> int \<Rightarrow> string \<Rightarrow> add_call" where
  "example_call tsk prio ms now =
     \<lparr>call_task = tsk, call_priority = Int_priority prio, call_tags = [],
      call_description = [], call_ms = ms, call_now = now\<rparr>"

definition steady :: "string \<Rightarrow> nat \<Rightarrow> string" where
  "steady now = (\<lambda>k. now)"

definition example_clock :: run_clock where
  "example_clock =
     \<lparr>t_started = ''2024-01-02T09:00:00'', t_finished = ''2024-01-02T09:00:07'',
      t_stamped = steady ''2024-01-02T09:00:08'', t_caught = ''2024-01-02T09:00:09''\<rparr>"

definition one_task_queue :: fs where
  "one_task_queue =
     apply_op (Add (example_call ''backup'' 3 5 ''2024-01-02T08:00:00'')) empty_store"

definition disk_full :: executor where
  "disk_full = sdk_executor (\<lambda>t. Inl ''disk full'') ''2024-01-02T09:00:06''"

text \<open>
  A store in which a finished task and a pending task have the same id: \<^verbatim>\<open>A\<close> is added
  and completed through the status route, the clock of the machine is set back, and
  \<^verbatim>\<open>B\<close> is added at a reading of the millisecond at which \<^verbatim>\<open>A\<close> was added.
\<close>

definition finished_store :: fs where
  "finished_store =
     apply_op (UpdateStatus ''task_5'' ''completed'' [] (steady ''2024-01-02T08:00:03''))
       (apply_op (Add (example_call ''A'' 3 5 ''2024-01-02T08:00:00.005900'')) empty_store)"

definition collision_store :: fs where
  "collision_store =
     apply_op (Add (example_call ''B'' 3 5 ''2024-01-02T08:00:00.005100'')) finished_store"

text \<open>What is seen of a store, and of a pass of the loop.\<close>

definition statuses_of :: "fs \<Rightarrow> (string \<times> string) list" where
  "statuses_of s = map (\<lambda>u. (task u, status u)) (stored_tasks s)"

definition pass_calls :: "py_error + iteration \<Rightarrow> string list" where
  "pass_calls r = (case r of Inl e \<Rightarrow> [] | Inr it \<Rightarrow> map task (calls it))"

definition pass_writes :: "py_error + iteration \<Rightarrow> (string \<times> string) list list" where
  "pass_writes r = (case r of Inl e \<Rightarrow> [] | Inr it \<Rightarrow> map statuses_of (writes it))"

section \<open>Properties\<close>

subsection \<open>Reading, sorting and decimal numerals\<close>

lemma lines_of_simps [simp]:
  "lines_of None = []" "lines_of (Some (ls, e)) = ls"
  by (simp_all add: lines_of_def)

lemma first_unreadable_None: "first_unreadable ls = None \<longleftrightarrow> list_all readable ls"
  by (induction ls rule: first_unreadable.induct) auto

lemma read_tasks_first_unreadable:
  "read_tasks keep ls =
     (case first_unreadable ls of
        None \<Rightarrow> Inr (filter keep (records ls))
      | Some e \<Rightarrow> Inl e)"
  by (induction keep ls rule: read_tasks.induct) (auto split: option.splits)

lemma read_tasks_parses:
  "list_all readable ls \<Longrightarrow> read_tasks keep ls = Inr (filter keep (records ls))"
  using first_unreadable_None[of ls] by (simp add: read_tasks_first_unreadable)

lemma read_all_filter_first_unreadable:
  "read_all (Some st) ls =
     (case first_unreadable ls of
        None \<Rightarrow> Inr (map Task (filter (\<lambda>t. status t = st) (records ls)))
      | Some e \<Rightarrow> Inl e)"
  by (induction "Some st" ls rule: read_all.induct) (auto split: option.splits)

lemma read_all_first_malformed:
  "first_malformed ls = Some m \<Longrightarrow> read_all None ls = Inl (JSONDecodeError m)"
  by (induction ls rule: first_malformed.induct) (auto split: sum.splits)

lemma read_all_parses:
  "list_all readable ls \<Longrightarrow>
     read_all flt ls = Inr (map Task (filter (\<lambda>t. flt = None \<or> Some (status t) = flt) (records ls)))"
  by (induction flt ls rule: read_all.induct) auto

lemma created_keys_Task: "created_keys (map Task ts) = Inr ts"
  by (induction ts) auto

lemma first_malformed_mem: "Malformed m \<in> set ls \<Longrightarrow> \<exists>m'. first_malformed ls = Some m'"
  by (induction ls rule: first_malformed.induct) auto

lemma first_unreadable_mem: "Malformed m \<in> set ls \<Longrightarrow> \<exists>e. first_unreadable ls = Some e"
  by (induction ls rule: first_unreadable.induct) auto

text \<open>
  The head of a stable sort is the first element of the list, in list order, among
  those with the least key.
\<close>

lemma sort_key_first:
  "xs \<noteq> [] \<Longrightarrow> \<exists>r rest pre post. sort_key f xs = r # rest \<and> xs = pre @ r # post \<and>
      (\<forall>t\<in>set pre. f r < f t) \<and> (\<forall>t\<in>set post. f r \<le> f t)"
proof (induction xs)
  case Nil
  then show ?case by simp
next
  case (Cons x xs)
  show ?case
  proof (cases "xs = []")
    case True
    then show ?thesis by (auto intro!: exI[of _ "[]"])
  next
    case False
    with Cons.IH obtain r rest pre post where
      s: "sort_key f xs = r # rest" and d: "xs = pre @ r # post"
      and lo: "\<forall>t\<in>set pre. f r < f t" and hi: "\<forall>t\<in>set post. f r \<le> f t"
      by blast
    show ?thesis
    proof (cases "f x \<le> f r")
      case True
      have "sort_key f (x # xs) = x # r # rest" using s True by simp
      moreover have "x # xs = [] @ x # xs" by simp
      moreover have "\<forall>t\<in>set xs. f x \<le> f t"
        using d lo hi True by (auto intro: order_trans less_imp_le)
      ultimately show ?thesis by (metis empty_iff list.set(1))
    next
      case False
      have "sort_key f (x # xs) = r # insort_key f x rest" using s False by simp
      moreover have "x # xs = (x # pre) @ r # post" using d by simp
      moreover have "\<forall>t\<in>set (x # pre). f r < f t" using lo False by auto
      ultimately show ?thesis using hi by blast
    qed
  qed
qed

lemma get_next_task_eq:
  "get_next_task s =
     (case first_unreadable (lines_of (queue_file s)) of
        Some e \<Rightarrow> Inl e
      | None \<Rightarrow> Inr (case sort_key next_key (pending_tasks s) of
                      [] \<Rightarrow> None | t # _ \<Rightarrow> Some t))"
proof (cases "queue_file s")
  case None
  then show ?thesis by (simp add: get_next_task_def pending_tasks_def stored_tasks_def)
next
  case (Some f)
  obtain ls e where f: "f = (ls, e)" by (cases f)
  have n: "sort_key next_key (pending_tasks s) = [] \<longleftrightarrow> pending_tasks s = []"
    by (metis length_0_conv length_sort)
  show ?thesis
  proof (cases "first_unreadable ls")
    case None
    then have "read_tasks (\<lambda>t. status t = ''pending'') ls = Inr (pending_tasks s)"
      using Some f by (simp add: read_tasks_first_unreadable pending_tasks_def stored_tasks_def)
    then show ?thesis
      using Some f None n
      by (cases "sort_key next_key (pending_tasks s)")
         (auto simp: get_next_task_def split: list.splits)
  next
    case (Some err)
    then show ?thesis
      using \<open>queue_file s = Some f\<close> f
      by (simp add: get_next_task_def read_tasks_first_unreadable)
  qed
qed

lemma get_next_task_parses:
  assumes "parses s"
  shows "get_next_task s =
           Inr (case sort_key next_key (pending_tasks s) of [] \<Rightarrow> None | t # _ \<Rightarrow> Some t)"
  using assms first_unreadable_None[of "lines_of (queue_file s)"]
  by (simp add: get_next_task_eq parses_def)

lemma set_sort_key_reverse: "set (sort_key_reverse f xs) = set xs"
  by (simp add: sort_key_reverse_def)

lemma filter_sort_key_reverse:
  "filter P (sort_key_reverse f xs) = sort_key_reverse f (filter P xs)"
  by (simp add: sort_key_reverse_def rev_filter filter_sort flip: rev_filter)

lemma get_all_tasks_parses:
  assumes "parses s"
  shows "get_all_tasks flt lim s =
     Inr (let sorted_tasks = sort_key_reverse created_at
                 (filter (\<lambda>t. flt = None \<or> Some (status t) = flt) (stored_tasks s))
          in case lim of
               None \<Rightarrow> sorted_tasks
             | Some n \<Rightarrow> if n \<noteq> 0 then slice_to n sorted_tasks else sorted_tasks)"
proof (cases "queue_file s")
  case None
  then show ?thesis by (simp add: get_all_tasks_def stored_tasks_def Let_def)
next
  case (Some f)
  obtain ls e where f: "f = (ls, e)" by (cases f)
  with assms Some have "list_all readable ls" by (simp add: parses_def)
  then show ?thesis
    using Some f
    by (simp add: get_all_tasks_def stored_tasks_def read_all_parses created_keys_Task Let_def)
qed

lemma of_char_digit: "d < 10 \<Longrightarrow> of_char (digit_char d) = (48 + d :: nat)"
  by (simp add: digit_char_def)

lemma val_str_nat: "foldl (\<lambda>a c. 10 * a + (of_char c - 48)) 0 (str_nat n) = n"
proof (induction n rule: str_nat.induct)
  case (1 n)
  show ?case
  proof (cases "n < 10")
    case True
    then show ?thesis by (simp add: of_char_digit)
  next
    case False
    have "n mod 10 < 10" by simp
    then have "of_char (digit_char (n mod 10)) - 48 = n mod 10"
      by (simp add: of_char_digit del: mod_less_divisor)
    with False 1 show ?thesis
      by (subst str_nat.simps) simp
  qed
qed

lemma str_nat_inj: "str_nat m = str_nat n \<Longrightarrow> m = n"
  by (metis val_str_nat)

lemma str_nat_no_minus: "CHR ''-'' \<notin> set (str_nat n)"
proof (induction n rule: str_nat.induct)
  case (1 n)
  have d: "\<And>d. d < 10 \<Longrightarrow> digit_char d \<noteq> CHR ''-''"
  proof
    fix d :: nat assume "d < 10" "digit_char d = CHR ''-''"
    then have "(of_char (digit_char d) :: nat) = of_char (CHR ''-'')" by simp
    with \<open>d < 10\<close> show False by (simp add: of_char_digit)
  qed
  show ?case
  proof (cases "n < 10")
    case True
    then show ?thesis using d[of n] by auto
  next
    case False
    have "n mod 10 < 10" by simp
    with False 1 d[of "n mod 10"] show ?thesis
      by (subst str_nat.simps) (auto simp del: mod_less_divisor)
  qed
qed

lemma str_nat_not_Nil: "str_nat n \<noteq> []"
  by (subst str_nat.simps) simp

lemma str_int_inj: "str_int i = str_int j \<Longrightarrow> i = j"
proof -
  assume e: "str_int i = str_int j"
  have hd_neg: "\<And>k. k < 0 \<Longrightarrow> hd (str_int k) = CHR ''-''" by (simp add: str_int_def)
  have hd_pos: "\<And>k. \<not> k < 0 \<Longrightarrow> hd (str_int k) \<noteq> CHR ''-''"
    using str_nat_no_minus str_nat_not_Nil by (metis hd_in_set str_int_def)
  consider "i < 0" "j < 0" | "\<not> i < 0" "\<not> j < 0" | "i < 0" "\<not> j < 0" | "\<not> i < 0" "j < 0"
    by blast
  then show ?thesis
  proof cases
    case 1
    with e have "str_nat (nat (- i)) = str_nat (nat (- j))" by (simp add: str_int_def)
    then have "nat (- i) = nat (- j)" by (rule str_nat_inj)
    with 1 show ?thesis by simp
  next
    case 2
    with e have "str_nat (nat i) = str_nat (nat j)" by (simp add: str_int_def)
    then have "nat i = nat j" by (rule str_nat_inj)
    with 2 show ?thesis by simp
  next
    case 3
    then show ?thesis using e hd_neg hd_pos by metis
  next
    case 4
    then show ?thesis using e hd_neg hd_pos by metis
  qed
qed

lemma str_int_5: "str_int 5 = ''5''"
  by code_simp

subsection \<open>The scheduler\<close>

text \<open>
  C1, as the code has it. On a queue file whose non-blank lines are all task records,
  \<^verbatim>\<open>get_next_task\<close> returns without raising. It returns \<^verbatim>\<open>None\<close> exactly when no task is
  pending. Otherwise it returns a pending task \<open>r\<close> of the store such that no pending
  task has a higher priority, no pending task of the same priority has an earlier
  \<^verbatim>\<open>created_at\<close>, and \<open>r\<close> is the first in file order among the pending tasks with its
  priority and its \<^verbatim>\<open>created_at\<close> (FIFO). The function reads the queue file and writes
  nothing: its value is a function of the store, and the embedding has no store to
  return.
\<close>

theorem get_next_task_selects:
  assumes "parses s"
  shows "\<exists>res. get_next_task s = Inr res \<and>
    (case res of
       None \<Rightarrow> pending_tasks s = []
     | Some r \<Rightarrow>
         r \<in> set (stored_tasks s) \<and> status r = ''pending''
       \<and> (\<forall>t\<in>set (pending_tasks s).
             priority t \<le> priority r
           \<and> (priority t = priority r \<longrightarrow> created_at r \<le> created_at t))
       \<and> (\<exists>pre post. pending_tasks s = pre @ r # post
           \<and> (\<forall>t\<in>set pre. \<not> (priority t = priority r \<and> created_at t = created_at r))))"
proof (cases "pending_tasks s = []")
  case True
  then show ?thesis using get_next_task_parses[OF assms] by simp
next
  case False
  from sort_key_first[OF False, of next_key] obtain r rest pre post where
    s: "sort_key next_key (pending_tasks s) = r # rest" and d: "pending_tasks s = pre @ r # post"
    and lo: "\<forall>t\<in>set pre. next_key r < next_key t" and hi: "\<forall>t\<in>set post. next_key r \<le> next_key t"
    by blast
  have g: "get_next_task s = Inr (Some r)" using get_next_task_parses[OF assms] s by simp
  have "r \<in> set (pending_tasks s)" using d by simp
  then have m: "r \<in> set (stored_tasks s) \<and> status r = ''pending''"
    by (simp add: pending_tasks_def)
  have all: "\<forall>t\<in>set (pending_tasks s). next_key r \<le> next_key t"
    using d lo hi by (auto intro: less_imp_le)
  have best: "\<forall>t\<in>set (pending_tasks s).
             priority t \<le> priority r
           \<and> (priority t = priority r \<longrightarrow> created_at r \<le> created_at t)"
    using all by (auto simp: next_key_def)
  have fifo: "\<forall>t\<in>set pre. \<not> (priority t = priority r \<and> created_at t = created_at r)"
    using lo by (auto simp: next_key_def)
  show ?thesis using g m best d fifo by auto
qed

theorem get_next_task_selects_witness:
  "parses example_queue \<and>
   get_next_task example_queue =
     Inr (Some (example_task ''task_3'' 3 ''2024-01-01T10:00:00'' ''pending''))"
proof -
  have p: "parses example_queue"
    by (simp add: parses_def example_queue_def)
  have "pending_tasks example_queue \<noteq> []"
    by (simp add: pending_tasks_def stored_tasks_def example_queue_def example_task_def new_task_def)
  then show ?thesis
    using p get_next_task_selects[OF p]
    by (simp add: get_next_task_def example_queue_def example_task_def new_task_def next_key_def)
qed

text \<open>
  The claim as stated, for every store state, fails: with a line that \<^verbatim>\<open>json.loads\<close>
  rejects, or a line that holds \<^verbatim>\<open>{}\<close>, between two pending tasks, \<^verbatim>\<open>get_next_task\<close>
  raises and returns neither of them.
\<close>

theorem get_next_task_raises_counterexample:
  "map task_id (pending_tasks corrupt_queue) = [''task_2'', ''task_3'']
   \<and> get_next_task corrupt_queue
       = Inl (JSONDecodeError ''Expecting value: line 1 column 1 (char 0)'')
   \<and> map task_id (pending_tasks foreign_queue) = [''task_2'', ''task_3'']
   \<and> get_next_task foreign_queue = Inl (KeyError ''status'')"
  by (simp add: get_next_task_def pending_tasks_def stored_tasks_def corrupt_queue_def
        foreign_queue_def example_task_def new_task_def)

subsection \<open>Reading a queue file with a line that does not parse\<close>

text \<open>
  C6, as the code has it. A record that fails to parse is not skipped: when the queue
  file has a line that \<^verbatim>\<open>json.loads\<close> rejects, every read raises and returns no record.
  \<^verbatim>\<open>get_next_task\<close>, and \<^verbatim>\<open>get_all_tasks\<close> with a status filter, raise at the first line
  they cannot process; \<^verbatim>\<open>get_all_tasks\<close> without a filter raises the
  \<^verbatim>\<open>JSONDecodeError\<close> of the first rejected line.
\<close>

theorem reads_raise_on_malformed:
  assumes "Malformed m \<in> set (lines_of (queue_file s))"
  shows "(\<exists>e. first_unreadable (lines_of (queue_file s)) = Some e
            \<and> get_next_task s = Inl e \<and> get_all_tasks (Some st) lim s = Inl e)
       \<and> (\<exists>m'. first_malformed (lines_of (queue_file s)) = Some m'
            \<and> get_all_tasks None lim s = Inl (JSONDecodeError m'))"
proof (cases "queue_file s")
  case None
  with assms show ?thesis by simp
next
  case (Some f)
  obtain ls e where f: "f = (ls, e)" by (cases f)
  from assms Some f obtain err where err: "first_unreadable ls = Some err"
    using first_unreadable_mem[of m ls] by auto
  from assms Some f obtain m' where m': "first_malformed ls = Some m'"
    using first_malformed_mem[of m ls] by auto
  have a: "get_next_task s = Inl err"
    using Some f err by (simp add: get_next_task_eq)
  have b: "get_all_tasks (Some st) lim s = Inl err"
    using Some f err by (simp add: get_all_tasks_def read_all_filter_first_unreadable)
  have c: "get_all_tasks None lim s = Inl (JSONDecodeError m')"
    using Some f read_all_first_malformed[OF m'] by (simp add: get_all_tasks_def)
  show ?thesis using Some f err m' a b c by simp
qed

theorem reads_raise_on_malformed_witness:
  "Malformed ''Expecting value: line 1 column 1 (char 0)''
     \<in> set (lines_of (queue_file corrupt_queue))
   \<and> get_all_tasks (Some ''pending'') (Some 1) corrupt_queue
     = Inl (JSONDecodeError ''Expecting value: line 1 column 1 (char 0)'')"
proof -
  have i: "Malformed ''Expecting value: line 1 column 1 (char 0)''
     \<in> set (lines_of (queue_file corrupt_queue))"
    by (simp add: corrupt_queue_def)
  show ?thesis
    using i reads_raise_on_malformed[OF i, of "''pending''" "Some 1"]
    by (simp add: corrupt_queue_def)
qed

text \<open>
  The claim as stated fails: with a malformed second line, neither read returns the two
  tasks around it.
\<close>

theorem reads_skip_malformed_counterexample:
  "get_all_tasks None None corrupt_queue
     = Inl (JSONDecodeError ''Expecting value: line 1 column 1 (char 0)'')
   \<and> get_next_task corrupt_queue
     = Inl (JSONDecodeError ''Expecting value: line 1 column 1 (char 0)'')"
  by (simp add: get_all_tasks_def get_next_task_def corrupt_queue_def)

subsection \<open>Listing\<close>

text \<open>
  C10 at \<^verbatim>\<open>limit=0\<close>: the limit is supplied and the list is not truncated. All four
  records of the example queue come back, newest first.
\<close>

theorem get_all_tasks_limit_zero:
  "get_all_tasks None (Some 0) example_queue =
     Inr [example_task ''task_4'' 3 ''2024-01-01T10:00:05'' ''pending'',
          example_task ''task_3'' 3 ''2024-01-01T10:00:00'' ''pending'',
          example_task ''task_2'' 2 ''2024-01-01T09:30:00'' ''pending'',
          example_task ''task_1'' 5 ''2024-01-01T09:00:00'' ''completed'']"
  by (simp add: get_all_tasks_def example_queue_def sort_key_reverse_def
        example_task_def new_task_def)

lemma sort_key_reverse_stable:
  "filter (\<lambda>y. f y = k) (sort_key_reverse f xs) = filter (\<lambda>y. f y = k) xs"
  by (simp add: sort_key_reverse_def sort_key_stable flip: rev_filter)

lemma sort_key_reverse_descending: "sorted (rev (map f (sort_key_reverse f xs)))"
  by (simp add: sort_key_reverse_def rev_map)

text \<open>
  What \<^verbatim>\<open>get_all_tasks\<close> returns on a queue file whose non-blank lines are all task
  records: the records whose status equals the filter (all records without a filter),
  each once, in descending order of \<^verbatim>\<open>created_at\<close>, records with the same \<^verbatim>\<open>created_at\<close>
  in file order; without a limit, and with the limit 0, all of them; with a positive
  limit \<open>n\<close>, the first \<open>n\<close>.
\<close>

theorem get_all_tasks_lists:
  assumes "parses s"
  shows "\<exists>ts newest_first. get_all_tasks flt lim s = Inr ts
     \<and> mset newest_first
          = mset (filter (\<lambda>t. flt = None \<or> Some (status t) = flt) (stored_tasks s))
     \<and> sorted (rev (map created_at newest_first))
     \<and> (\<forall>k. filter (\<lambda>t. created_at t = k) newest_first
               = filter (\<lambda>t. created_at t = k)
                   (filter (\<lambda>t. flt = None \<or> Some (status t) = flt) (stored_tasks s)))
     \<and> (lim = None \<or> lim = Some 0 \<longrightarrow> ts = newest_first)
     \<and> (\<forall>n. lim = Some n \<and> 0 < n \<longrightarrow>
            ts = take (nat n) newest_first \<and> int (length ts) \<le> n)"
proof -
  let ?m = "filter (\<lambda>t. flt = None \<or> Some (status t) = flt) (stored_tasks s)"
  let ?nf = "sort_key_reverse created_at ?m"
  let ?ts = "case lim of None \<Rightarrow> ?nf | Some n \<Rightarrow> if n \<noteq> 0 then slice_to n ?nf else ?nf"
  have g: "get_all_tasks flt lim s = Inr ?ts"
    using get_all_tasks_parses[OF assms, of flt lim] by (simp add: Let_def)
  have m: "mset ?nf = mset ?m"
    by (simp add: sort_key_reverse_def)
  have d: "sorted (rev (map created_at ?nf))"
    by (rule sort_key_reverse_descending)
  have st: "\<forall>k. filter (\<lambda>t. created_at t = k) ?nf = filter (\<lambda>t. created_at t = k) ?m"
    by (simp only: sort_key_reverse_stable simp_thms)
  have a: "lim = None \<or> lim = Some 0 \<longrightarrow> ?ts = ?nf"
    by auto
  have b: "\<forall>n. lim = Some n \<and> 0 < n \<longrightarrow> ?ts = take (nat n) ?nf \<and> int (length ?ts) \<le> n"
    by (auto simp: slice_to_def)
  show ?thesis
    using g m d st a b by (intro exI[of _ ?ts] exI[of _ ?nf] conjI)
qed

subsection \<open>Adding\<close>

lemma records_append: "records (xs @ ys) = records xs @ records ys"
  by (induction xs rule: records.induct) auto

lemma append_record_terminated:
  "newline_terminated f \<Longrightarrow> append_record t f = Some (lines_of f @ [Json t], Newline)"
  by (cases f) (auto simp: newline_terminated_def append_record_def split: ending.splits)

lemma write_task_terminated:
  assumes "newline_terminated (queue_file s)"
  shows "stored_tasks (snd (write_task t s)) = stored_tasks s @ [t]"
    and "parses (snd (write_task t s)) = parses s"
    and "newline_terminated (queue_file (snd (write_task t s)))"
    and "lines_of (queue_file (snd (write_task t s))) = lines_of (queue_file s) @ [Json t]"
  using append_record_terminated[OF assms, of t]
  by (simp_all add: write_task_def stored_tasks_def parses_def records_append
        newline_terminated_def)

lemma write_task_other:
  "fst (write_task t s) = task_id t"
  "completed_file (snd (write_task t s)) = completed_file s"
  "queue_file (snd (write_task t s)) = append_record t (queue_file s)"
  by (simp_all add: write_task_def)

lemma apply_op_Add:
  "apply_op (Add (example_call tsk p ms now)) s
     = snd (write_task (new_task tsk p [] [] ms now) s)"
  by (simp add: add_call_task_def add_task_def example_call_def split: prod.splits)




lemma add_all_Cons: "add_all (c # cs) s = add_all cs (apply_op (Add c) s)"
  by (simp add: add_all_def)

lemma apply_op_Add_numeric:
  "priority_value (call_priority c) \<noteq> None \<Longrightarrow>
     apply_op (Add c) s = snd (write_task (new_task_of c) s)"
  by (cases "call_priority c")
     (auto simp: add_call_task_def add_task_def new_task_of_def split: prod.splits)

lemma add_all_numeric:
  assumes "list_all (\<lambda>c. priority_value (call_priority c) \<noteq> None) cs"
    and "newline_terminated (queue_file s)"
  shows "stored_tasks (add_all cs s) = stored_tasks s @ map new_task_of cs
     \<and> completed_file (add_all cs s) = completed_file s"
  using assms
proof (induction cs arbitrary: s)
  case Nil
  then show ?case by (simp add: add_all_def)
next
  case (Cons c cs)
  let ?s' = "snd (write_task (new_task_of c) s)"
  have a: "apply_op (Add c) s = ?s'"
    using Cons.prems(1) by (intro apply_op_Add_numeric) simp
  have "newline_terminated (queue_file ?s')"
    using Cons.prems(2) by (rule write_task_terminated)
  moreover have "list_all (\<lambda>c. priority_value (call_priority c) \<noteq> None) cs"
    using Cons.prems(1) by simp
  ultimately have "stored_tasks (add_all cs ?s') = stored_tasks ?s' @ map new_task_of cs
     \<and> completed_file (add_all cs ?s') = completed_file ?s'"
    using Cons.IH by blast
  then show ?case
    using a write_task_terminated(1)[OF Cons.prems(2), of "new_task_of c"]
    by (simp add: add_all_Cons write_task_other)
qed

text \<open>
  The id is \<^verbatim>\<open>task_\<close> followed by the millisecond clock reading, and nothing else: after
  a sequence of \<^verbatim>\<open>add_task\<close> calls with numeric priorities on an empty store, the ids of
  the store are pairwise distinct exactly when the clock readings of the calls are.
\<close>

lemma add_all_ids_distinct_iff:
  assumes "list_all (\<lambda>c. priority_value (call_priority c) \<noteq> None) cs"
  shows "(distinct (map task_id (stored_tasks (add_all cs empty_store)))
      \<longleftrightarrow> distinct (map call_ms cs))
   \<and> archived_tasks (add_all cs empty_store) = []"
proof -
  have inj: "inj (\<lambda>ms. ''task_'' @ str_int ms)"
    by (rule injI) (simp add: str_int_inj)
  have n: "newline_terminated (queue_file empty_store)"
    by (simp add: newline_terminated_def empty_store_def)
  have e: "stored_tasks empty_store = []"
    by (simp add: stored_tasks_def empty_store_def)
  have "map task_id (stored_tasks (add_all cs empty_store))
          = map (\<lambda>ms. ''task_'' @ str_int ms) (map call_ms cs)"
    using add_all_numeric[OF assms n] e
    by (simp add: new_task_of_def new_task_def comp_def)
  then have "distinct (map task_id (stored_tasks (add_all cs empty_store)))
      \<longleftrightarrow> distinct (map call_ms cs)"
    using inj by (simp only: distinct_map) (auto intro: inj_on_subset)
  moreover have "archived_tasks (add_all cs empty_store) = []"
    using add_all_numeric[OF assms n] by (simp add: archived_tasks_def empty_store_def)
  ultimately show ?thesis by simp
qed

text \<open>
  C8 at two calls that read the same millisecond: both records receive the id
  \<^verbatim>\<open>task_5\<close>.
\<close>

theorem add_same_millisecond_counterexample:
  "\<not> distinct (map task_id (stored_tasks
        (add_all [example_call ''A'' 3 5 ''2024-01-02T08:00:00.005100'',
                  example_call ''B'' 3 5 ''2024-01-02T08:00:00.005900''] empty_store)))"
proof -
  have n: "newline_terminated (queue_file empty_store)"
    by (simp add: newline_terminated_def empty_store_def)
  have e: "stored_tasks empty_store = []"
    by (simp add: stored_tasks_def empty_store_def)
  have l: "list_all (\<lambda>c. priority_value (call_priority c) \<noteq> None)
             [example_call ''A'' 3 5 ''2024-01-02T08:00:00.005100'',
              example_call ''B'' 3 5 ''2024-01-02T08:00:00.005900'']"
    by (simp add: example_call_def)
  show ?thesis
    using add_all_numeric[OF l n] e
    by (simp add: new_task_of_def new_task_def example_call_def)
qed

subsection \<open>Updating a status\<close>

lemma set_key_status: "set_key k (t\<lparr>status := st\<rparr>) = (set_key k t)\<lparr>status := st\<rparr>"
  by (cases k) simp_all

lemma fold_set_key_status:
  "fold set_key kwargs (t\<lparr>status := st\<rparr>) = (fold set_key kwargs t)\<lparr>status := st\<rparr>"
proof (induction kwargs arbitrary: t)
  case Nil
  then show ?case by simp
next
  case (Cons k kwargs)
  have "fold set_key (k # kwargs) (t\<lparr>status := st\<rparr>)
          = fold set_key kwargs ((set_key k t)\<lparr>status := st\<rparr>)"
    by (simp only: fold_simps set_key_status)
  also have "\<dots> = (fold set_key kwargs (set_key k t))\<lparr>status := st\<rparr>"
    by (rule Cons.IH)
  finally show ?case by simp
qed

lemma fold_set_key_kept:
  "task_id (fold set_key kwargs t) = task_id t \<and> attempts (fold set_key kwargs t) = attempts t
   \<and> status (fold set_key kwargs t) = status t \<and> task (fold set_key kwargs t) = task t"
proof (induction kwargs arbitrary: t)
  case Nil
  then show ?case by simp
next
  case (Cons k kwargs)
  show ?case by (cases k) (simp_all add: Cons.IH)
qed

lemma touch_eq:
  "touch st kwargs now t =
     (if st = ''completed''
      then (fold set_key kwargs t)\<lparr>status := st, completed_at := Some now\<rparr>
      else (fold set_key kwargs t)\<lparr>status := st\<rparr>)"
  by (simp add: touch_def Let_def fold_set_key_status)

lemma touch_kept:
  "task_id (touch st kwargs now t) = task_id t \<and> attempts (touch st kwargs now t) = attempts t
   \<and> status (touch st kwargs now t) = st \<and> task (touch st kwargs now t) = task t"
  by (simp add: touch_eq fold_set_key_kept)

lemma touch_clock: "st \<noteq> ''completed'' \<Longrightarrow> touch st kwargs a = touch st kwargs b"
  by (rule ext) (simp add: touch_eq)

lemma rewrite_at_const: "rewrite_at tid (\<lambda>k. g) k ts = rewrite tid g ts"
  by (induction ts arbitrary: k) (auto simp: rewrite_def)

lemma rewrite_at_touch:
  assumes "st \<noteq> ''completed''"
  shows "rewrite_at tid (\<lambda>k. touch st kwargs (clock k)) k0 ts
           = rewrite tid (touch st kwargs c) ts"
proof -
  have "(\<lambda>k. touch st kwargs (clock k)) = (\<lambda>k. touch st kwargs c)"
    by (rule ext) (rule touch_clock[OF assms])
  then show ?thesis
    by (simp only: rewrite_at_const)
qed

lemma last_updated_eq:
  "last_updated tid f k ts =
     (if filter (\<lambda>t. task_id t = tid) ts = [] then None
      else Some (f (k + length (filter (\<lambda>t. task_id t = tid) ts) - 1)
                  (last (filter (\<lambda>t. task_id t = tid) ts))))"
  by (induction ts arbitrary: k) auto

lemma rewrite_at_mem:
  "t \<in> set ts \<Longrightarrow> task_id t = tid \<Longrightarrow> \<exists>j. f j t \<in> set (rewrite_at tid f k ts)"
  by (induction ts arbitrary: k) auto

lemma rewrite_at_last:
  "filter (\<lambda>t. task_id t = tid) ts \<noteq> [] \<Longrightarrow>
     f (k + length (filter (\<lambda>t. task_id t = tid) ts) - 1)
       (last (filter (\<lambda>t. task_id t = tid) ts)) \<in> set (rewrite_at tid f k ts)"
proof (induction ts arbitrary: k)
  case Nil
  then show ?case by simp
next
  case (Cons a ts)
  show ?case
  proof (cases "filter (\<lambda>t. task_id t = tid) ts = []")
    case True
    with Cons.prems show ?thesis by (auto split: if_splits)
  next
    case False
    from Cons.IH[OF False, of "if task_id a = tid then Suc k else k"] False
    show ?thesis by auto
  qed
qed

lemma update_lines_parses:
  "list_all readable ls \<Longrightarrow>
     update_lines tid f k ls =
       Inr (rewrite_at tid f k (records ls), last_updated tid f k (records ls))"
  by (induction tid f k ls rule: update_lines.induct) (auto split: option.splits)

lemma records_map_Json: "records (map (Json \<circ> g) ts) = map g ts"
  by (induction ts) auto

lemma list_all_map_Json: "list_all readable (map (Json \<circ> g) ts)"
  by (induction ts) auto

lemma records_map_Json_id: "records (map Json ts) = ts"
  by (induction ts) auto

lemma list_all_map_Json_id: "list_all readable (map Json ts)"
  by (induction ts) auto

lemma update_task_status_parses:
  assumes "parses s"
  shows "\<exists>s'. update_task_status tid st kwargs clock s
              = Inr (last_updated tid (\<lambda>k. touch st kwargs (clock k)) 0 (stored_tasks s), s')
     \<and> parses s' \<and> newline_terminated (queue_file s')
     \<and> stored_tasks s' =
         rewrite_at tid (\<lambda>k. touch st kwargs (clock k)) 0 (stored_tasks s)
     \<and> completed_file s' =
         (case last_updated tid (\<lambda>k. touch st kwargs (clock k)) 0 (stored_tasks s) of
            None \<Rightarrow> completed_file s
          | Some u \<Rightarrow> if st = ''completed'' then append_record u (completed_file s)
                      else completed_file s)"
proof (cases "queue_file s")
  case None
  then show ?thesis
    by (simp add: update_task_status_def stored_tasks_def parses_def newline_terminated_def)
next
  case (Some f)
  obtain ls e where f: "f = (ls, e)" by (cases f)
  let ?F = "\<lambda>k. touch st kwargs (clock k)"
  from assms Some f have "update_lines tid ?F 0 ls =
       Inr (rewrite_at tid ?F 0 (stored_tasks s), last_updated tid ?F 0 (stored_tasks s))"
    by (simp add: parses_def update_lines_parses stored_tasks_def)
  with Some f show ?thesis
    by (cases "last_updated tid ?F 0 (stored_tasks s)")
       (simp_all add: update_task_status_def stored_tasks_def parses_def Let_def
          records_map_Json_id list_all_map_Json_id newline_terminated_def)
qed

text \<open>
  C5, as the code has it. For a task id present in a store whose non-blank lines are all
  task records, \<^verbatim>\<open>update_task_status\<close> returns the updated task, the last record of the
  id, and rewrites every record of the id: the status is overwritten and the supplied
  fields are merged. The function stamps \<^verbatim>\<open>completed_at\<close> itself, with one clock
  reading for each record of the id, exactly when the new status is \<^verbatim>\<open>completed\<close>;
  \<^verbatim>\<open>started_at\<close> and \<^verbatim>\<open>failed_at\<close> are what the caller supplied, or what the record
  held, for every new status. The updated task is written to the file of completed
  tasks exactly when the new status is \<^verbatim>\<open>completed\<close>.
\<close>

theorem update_task_status_effect:
  assumes "parses s" and "tid \<in> task_id ` set (stored_tasks s)"
  shows "\<exists>u s' t k. update_task_status tid st kwargs clock s = Inr (Some u, s')
     \<and> t = last (filter (\<lambda>t. task_id t = tid) (stored_tasks s))
     \<and> Suc k = length (filter (\<lambda>t. task_id t = tid) (stored_tasks s))
     \<and> t \<in> set (stored_tasks s) \<and> task_id t = tid
     \<and> u = touch st kwargs (clock k) t
     \<and> u \<in> set (stored_tasks s')
     \<and> stored_tasks s' =
         rewrite_at tid (\<lambda>k. touch st kwargs (clock k)) 0 (stored_tasks s)
     \<and> status u = st
     \<and> completed_at u =
         (if st = ''completed'' then Some (clock k) else completed_at (fold set_key kwargs t))
     \<and> started_at u = started_at (fold set_key kwargs t)
     \<and> failed_at u = failed_at (fold set_key kwargs t)
     \<and> completed_file s' =
         (if st = ''completed'' then append_record u (completed_file s)
          else completed_file s)"
proof -
  let ?F = "\<lambda>k. touch st kwargs (clock k)"
  let ?ms = "filter (\<lambda>t. task_id t = tid) (stored_tasks s)"
  let ?t = "last ?ms" and ?k = "length ?ms - 1"
  let ?u = "touch st kwargs (clock ?k) ?t"
  from assms(2) have ne: "?ms \<noteq> []"
    by (auto simp: filter_empty_conv)
  then have lu: "last_updated tid ?F 0 (stored_tasks s) = Some ?u"
    by (simp add: last_updated_eq)
  have "?t \<in> set ?ms" using ne by (rule last_in_set)
  then have t: "?t \<in> set (stored_tasks s) \<and> task_id ?t = tid" by simp
  have k: "Suc ?k = length ?ms" using ne by simp
  from update_task_status_parses[OF assms(1), of tid st kwargs clock] lu obtain s' where
    r: "update_task_status tid st kwargs clock s = Inr (Some ?u, s')"
    and m: "stored_tasks s' = rewrite_at tid ?F 0 (stored_tasks s)"
    and c: "completed_file s' =
         (if st = ''completed'' then append_record ?u (completed_file s)
          else completed_file s)"
    by auto
  have i: "?u \<in> set (stored_tasks s')"
    unfolding m using rewrite_at_last[OF ne, of ?F 0] by simp
  have f: "status ?u = st
     \<and> completed_at ?u =
         (if st = ''completed'' then Some (clock ?k) else completed_at (fold set_key kwargs ?t))
     \<and> started_at ?u = started_at (fold set_key kwargs ?t)
     \<and> failed_at ?u = failed_at (fold set_key kwargs ?t)"
    by (simp add: touch_eq)
  show ?thesis
    using r t k i m f c
    by (intro exI[of _ ?u] exI[of _ s'] exI[of _ ?t] exI[of _ ?k]) simp
qed

theorem update_task_status_effect_witness:
  "parses example_queue \<and> ''task_2'' \<in> task_id ` set (stored_tasks example_queue) \<and>
   (\<exists>s'. update_task_status ''task_2'' ''completed'' [Duration 30]
            (steady ''2024-01-02T09:00:08'') example_queue
          = Inr (Some ((example_task ''task_2'' 2 ''2024-01-01T09:30:00'' ''completed'')
                         \<lparr>completed_at := Some ''2024-01-02T09:00:08'', duration := Some 30\<rparr>), s')
        \<and> completed_file s' =
            Some ([Json ((example_task ''task_2'' 2 ''2024-01-01T09:30:00'' ''completed'')
                         \<lparr>completed_at := Some ''2024-01-02T09:00:08'',
                          duration := Some 30\<rparr>)], Newline))"
proof -
  have p: "parses example_queue"
    by (simp add: parses_def example_queue_def)
  have i: "''task_2'' \<in> task_id ` set (stored_tasks example_queue)"
    by (simp add: stored_tasks_def example_queue_def example_task_def new_task_def)
  show ?thesis
    using p i update_task_status_effect[OF p i, of "''completed''" "[Duration 30]"
        "steady ''2024-01-02T09:00:08''"]
    by (simp add: update_task_status_def example_queue_def example_task_def new_task_def
          touch_def append_record_def Let_def steady_def)
qed

text \<open>
  The claim as stated fails: a transition to \<^verbatim>\<open>in_progress\<close> with no keyword argument,
  as the web route makes it, stamps no \<^verbatim>\<open>started_at\<close>; and on a store with a line that
  \<^verbatim>\<open>json.loads\<close> rejects, the update of a task that is present raises.
\<close>

theorem update_in_progress_counterexample:
  "(\<exists>u s'. api_update_task_status ''task_2'' (Some ''in_progress'')
              (steady ''2024-01-02T09:00:08'') example_queue = (Reply_task u, s')
      \<and> status u = ''in_progress'' \<and> started_at u = None)
   \<and> ''task_2'' \<in> task_id ` set (stored_tasks corrupt_queue)
   \<and> update_task_status ''task_2'' ''in_progress'' [] (steady ''2024-01-02T09:00:08'')
        corrupt_queue
       = Inl (JSONDecodeError ''Expecting value: line 1 column 1 (char 0)'')"
  by (simp add: api_update_task_status_def update_task_status_def example_queue_def
        corrupt_queue_def stored_tasks_def example_task_def new_task_def touch_def Let_def)

text \<open>
  Adding, then listing. On a queue file that parses and ends with a newline, and with an
  id that no task of the store holds, the listing after \<^verbatim>\<open>add_task\<close> has one record under
  the returned id: the new one, \<^verbatim>\<open>pending\<close>, with \<open>attempts = 0\<close> and the priority
  clamped into 1..5.
\<close>

lemma add_then_list_fresh:
  assumes "parses s" and "newline_terminated (queue_file s)"
    and "priority_value prio = Some p"
    and "''task_'' @ str_int now_ms \<notin> task_id ` set (stored_tasks s)"
  shows "\<exists>s' ts. add_task tsk prio tgs descr now_ms now s = Inr (''task_'' @ str_int now_ms, s')
     \<and> get_all_tasks None None s' = Inr ts
     \<and> filter (\<lambda>u. task_id u = ''task_'' @ str_int now_ms) ts
         = [new_task tsk p tgs descr now_ms now]
     \<and> status (new_task tsk p tgs descr now_ms now) = ''pending''
     \<and> attempts (new_task tsk p tgs descr now_ms now) = 0
     \<and> priority (new_task tsk p tgs descr now_ms now) = max 1 (min 5 p)"
proof -
  let ?n = "new_task tsk p tgs descr now_ms now"
  let ?s' = "snd (write_task ?n s)"
  let ?ts = "sort_key_reverse created_at (stored_tasks ?s')"
  have i: "task_id ?n = ''task_'' @ str_int now_ms"
    by (simp add: new_task_def)
  have a: "add_task tsk prio tgs descr now_ms now s = Inr (write_task ?n s)"
    using assms(3) by (cases prio) (auto simp: add_task_def)
  have r: "add_task tsk prio tgs descr now_ms now s = Inr (''task_'' @ str_int now_ms, ?s')"
    unfolding a using i by (simp add: prod_eq_iff write_task_other)
  have "parses ?s'"
    using assms(1) write_task_terminated(2)[OF assms(2), of ?n] by simp
  then have g: "get_all_tasks None None ?s' = Inr ?ts"
    by (simp add: get_all_tasks_parses)
  have "filter (\<lambda>u. task_id u = task_id ?n) (stored_tasks s) = []"
    using assms(4) unfolding i by (auto simp: filter_empty_conv image_iff)
  then have "filter (\<lambda>u. task_id u = task_id ?n) (stored_tasks ?s') = [?n]"
    by (simp add: write_task_terminated(1)[OF assms(2)])
  then have "sort_key_reverse created_at
               (filter (\<lambda>u. task_id u = task_id ?n) (stored_tasks ?s')) = [?n]"
    by (simp add: sort_key_reverse_def)
  then have "filter (\<lambda>u. task_id u = task_id ?n) ?ts = [?n]"
    by (simp only: filter_sort_key_reverse)
  then have f: "filter (\<lambda>u. task_id u = ''task_'' @ str_int now_ms) ?ts = [?n]"
    unfolding i .
  have p: "status ?n = ''pending'' \<and> attempts ?n = 0 \<and> priority ?n = max 1 (min 5 p)"
    by (simp add: new_task_def)
  show ?thesis
    using r g f p by (intro exI[of _ ?s'] exI[of _ ?ts]) simp
qed

lemma first_unreadable_append:
  "list_all readable ls \<Longrightarrow> first_unreadable (ls @ rest) = first_unreadable rest"
  by (induction ls rule: first_unreadable.induct) auto

lemma first_malformed_append:
  "list_all readable ls \<Longrightarrow> first_malformed (ls @ rest) = first_malformed rest"
  by (induction ls rule: first_malformed.induct) auto

text \<open>
  On a queue file whose last line is a task record without its final newline, the
  record \<^verbatim>\<open>add_task\<close> writes continues that line: the file parsed before the call, and
  every read after it raises.
\<close>

lemma add_task_unterminated:
  assumes "queue_file s = Some (ls @ [Json u], No_newline msg)"
    and "list_all readable ls" and "priority_value prio = Some p"
  shows "parses s
     \<and> (\<exists>s'. add_task tsk prio tgs descr now_ms now s = Inr (''task_'' @ str_int now_ms, s')
           \<and> get_next_task s'
               = Inl (JSONDecodeError (msg (new_task tsk p tgs descr now_ms now)))
           \<and> get_all_tasks flt lim s'
               = Inl (JSONDecodeError (msg (new_task tsk p tgs descr now_ms now))))"
proof -
  let ?n = "new_task tsk p tgs descr now_ms now"
  let ?s' = "snd (write_task ?n s)"
  have ps: "parses s"
    using assms(1,2) by (simp add: parses_def)
  have i: "task_id ?n = ''task_'' @ str_int now_ms"
    by (simp add: new_task_def)
  have a: "add_task tsk prio tgs descr now_ms now s = Inr (write_task ?n s)"
    using assms(3) by (cases prio) (auto simp: add_task_def)
  have r: "add_task tsk prio tgs descr now_ms now s = Inr (''task_'' @ str_int now_ms, ?s')"
    unfolding a using i by (simp add: prod_eq_iff write_task_other)
  have q: "queue_file ?s' = Some (ls @ [Malformed (msg ?n)], Newline)"
    using assms(1) by (simp add: write_task_def append_record_def glue_def)
  have fu: "first_unreadable (lines_of (queue_file ?s')) = Some (JSONDecodeError (msg ?n))"
    unfolding q using first_unreadable_append[OF assms(2)] by simp
  have fm: "first_malformed (lines_of (queue_file ?s')) = Some (msg ?n)"
    unfolding q using first_malformed_append[OF assms(2)] by simp
  have g: "get_next_task ?s' = Inl (JSONDecodeError (msg ?n))"
    using fu by (simp add: get_next_task_eq)
  have l: "get_all_tasks flt lim ?s' = Inl (JSONDecodeError (msg ?n))"
  proof (cases flt)
    case None
    with read_all_first_malformed[OF fm] q show ?thesis
      by (simp add: get_all_tasks_def)
  next
    case (Some st)
    with fu q show ?thesis
      by (simp add: get_all_tasks_def read_all_filter_first_unreadable)
  qed
  show ?thesis
    using ps r g l by (intro conjI exI[of _ ?s']) simp_all
qed

subsection \<open>The polling loop\<close>

lemma update_task_status_rewrite:
  assumes "parses s"
  shows "\<exists>r s'. update_task_status tid st kwargs clock s = Inr (r, s') \<and> parses s'
     \<and> stored_tasks s' = rewrite_at tid (\<lambda>k. touch st kwargs (clock k)) 0 (stored_tasks s)
     \<and> (st \<noteq> ''completed'' \<longrightarrow>
          stored_tasks s' = rewrite tid (touch st kwargs (clock 0)) (stored_tasks s)
          \<and> completed_file s' = completed_file s)"
  using update_task_status_parses[OF assms, of tid st kwargs clock]
    rewrite_at_touch[of st tid kwargs clock 0 "stored_tasks s" "clock 0"]
  by (auto split: option.splits)

lemma run_task_parses:
  assumes "parses s"
  shows "\<exists>s1 s2. run_task exec clk tsk s = Inr \<lparr>writes = [s1, s2], calls = [tsk]\<rparr>
     \<and> parses s1 \<and> parses s2
     \<and> stored_tasks s1 =
         rewrite (task_id tsk)
           (touch ''in_progress'' [Started_at (t_started clk)] (t_stamped clk 0)) (stored_tasks s)
     \<and> stored_tasks s2 =
         rewrite_at (task_id tsk)
           (\<lambda>k. touch (fst (final_update exec clk tsk)) (snd (final_update exec clk tsk))
              (t_stamped clk k)) 0 (stored_tasks s1)
     \<and> completed_file s1 = completed_file s
     \<and> (fst (final_update exec clk tsk) \<noteq> ''completed'' \<longrightarrow>
          stored_tasks s2 =
            rewrite (task_id tsk)
              (touch (fst (final_update exec clk tsk)) (snd (final_update exec clk tsk))
                 (t_stamped clk 0)) (stored_tasks s1)
          \<and> completed_file s2 = completed_file s)"
proof -
  have ip: "''in_progress'' \<noteq> ''completed''" by simp
  from update_task_status_rewrite[OF assms, of "task_id tsk" "''in_progress''"
      "[Started_at (t_started clk)]" "t_stamped clk"] ip
  obtain r1 s1 where
    u1: "update_task_status (task_id tsk) ''in_progress'' [Started_at (t_started clk)]
           (t_stamped clk) s = Inr (r1, s1)"
    and p1: "parses s1"
    and t1: "stored_tasks s1 =
         rewrite (task_id tsk)
           (touch ''in_progress'' [Started_at (t_started clk)] (t_stamped clk 0)) (stored_tasks s)"
    and c1: "completed_file s1 = completed_file s"
    by blast
  let ?st = "fst (final_update exec clk tsk)" and ?kw = "snd (final_update exec clk tsk)"
  from update_task_status_rewrite[OF p1, of "task_id tsk" ?st ?kw "t_stamped clk"]
  obtain r2 s2 where
    u2: "update_task_status (task_id tsk) ?st ?kw (t_stamped clk) s1 = Inr (r2, s2)"
    and p2: "parses s2"
    and t2: "stored_tasks s2 =
         rewrite_at (task_id tsk) (\<lambda>k. touch ?st ?kw (t_stamped clk k)) 0 (stored_tasks s1)"
    and c2: "?st \<noteq> ''completed'' \<longrightarrow>
         stored_tasks s2 = rewrite (task_id tsk) (touch ?st ?kw (t_stamped clk 0)) (stored_tasks s1)
         \<and> completed_file s2 = completed_file s1"
    by blast
  have "run_task exec clk tsk s = Inr \<lparr>writes = [s1, s2], calls = [tsk]\<rparr>"
  proof (cases "exec tsk")
    case (Inl m)
    with u1 u2 show ?thesis by (simp add: run_task_def final_update_def)
  next
    case (Inr result)
    with u1 u2 show ?thesis by (cases "res_success result") (simp_all add: run_task_def final_update_def)
  qed
  with p1 p2 t1 t2 c1 c2 show ?thesis
    by (intro exI[of _ s1] exI[of _ s2]) simp
qed

lemma rewrite_rewrite:
  "(\<And>t. task_id (f t) = task_id t) \<Longrightarrow>
     rewrite tid g (rewrite tid f ts) = rewrite tid (\<lambda>t. g (f t)) ts"
  by (induction ts) (auto simp: rewrite_def)

text \<open>
  C2, as the code has it. On a store whose queue file parses, a dispatch whose
  executor body raises an exception with message \<open>E\<close> makes one executor call and two
  writes. The first write leaves every record of the task's id \<^verbatim>\<open>in_progress\<close> with
  \<^verbatim>\<open>started_at\<close> stamped; the second leaves it \<^verbatim>\<open>failed\<close> with \<^verbatim>\<open>error\<close> = \<open>E\<close> and
  \<^verbatim>\<open>failed_at\<close> stamped. No other field changes: \<^verbatim>\<open>attempts\<close> keeps its value, 0 for a task
  that \<^verbatim>\<open>add_task\<close> made. Records of other ids and the file of completed tasks are
  untouched.
\<close>

theorem run_task_executor_error:
  assumes "parses s" and "sdk tsk = Inl E"
  shows "\<exists>s1 s2. run_task (sdk_executor sdk now) clk tsk s
                   = Inr \<lparr>writes = [s1, s2], calls = [tsk]\<rparr>
     \<and> stored_tasks s1 =
         rewrite (task_id tsk)
           (\<lambda>t. t\<lparr>status := ''in_progress'', started_at := Some (t_started clk)\<rparr>)
           (stored_tasks s)
     \<and> stored_tasks s2 =
         rewrite (task_id tsk)
           (\<lambda>t. t\<lparr>status := ''failed'', started_at := Some (t_started clk),
                   error := Some E, failed_at := Some (t_finished clk)\<rparr>)
           (stored_tasks s)
     \<and> map attempts (stored_tasks s2) = map attempts (stored_tasks s)
     \<and> completed_file s2 = completed_file s"
proof -
  let ?ex = "sdk_executor sdk now"
  have fu: "final_update ?ex clk tsk
              = (''failed'', [Error E, Failed_at (t_finished clk)])"
    using assms(2)
    by (simp add: final_update_def sdk_executor_def execute_task_autonomously_def get_or_def)
  from run_task_parses[OF assms(1), of ?ex clk tsk] fu obtain s1 s2 where
    r: "run_task ?ex clk tsk s = Inr \<lparr>writes = [s1, s2], calls = [tsk]\<rparr>"
    and t1: "stored_tasks s1 =
         rewrite (task_id tsk)
           (touch ''in_progress'' [Started_at (t_started clk)] (t_stamped clk 0)) (stored_tasks s)"
    and t2: "stored_tasks s2 =
         rewrite (task_id tsk)
           (touch ''failed'' [Error E, Failed_at (t_finished clk)] (t_stamped clk 0))
           (stored_tasks s1)"
    and c: "completed_file s2 = completed_file s"
    by auto
  have f1: "touch ''in_progress'' [Started_at (t_started clk)] (t_stamped clk 0)
              = (\<lambda>t. t\<lparr>status := ''in_progress'', started_at := Some (t_started clk)\<rparr>)"
    by (rule ext) (simp add: touch_eq)
  have f2: "(\<lambda>t. touch ''failed'' [Error E, Failed_at (t_finished clk)] (t_stamped clk 0)
                   (t\<lparr>status := ''in_progress'', started_at := Some (t_started clk)\<rparr>))
              = (\<lambda>t. t\<lparr>status := ''failed'', started_at := Some (t_started clk),
                   error := Some E, failed_at := Some (t_finished clk)\<rparr>)"
    by (rule ext) (simp add: touch_eq)
  have e1: "stored_tasks s1 =
         rewrite (task_id tsk)
           (\<lambda>t. t\<lparr>status := ''in_progress'', started_at := Some (t_started clk)\<rparr>)
           (stored_tasks s)"
    using t1 by (simp only: f1)
  have e2: "stored_tasks s2 =
         rewrite (task_id tsk)
           (\<lambda>t. t\<lparr>status := ''failed'', started_at := Some (t_started clk),
                   error := Some E, failed_at := Some (t_finished clk)\<rparr>)
           (stored_tasks s)"
    unfolding t2 e1 by (subst rewrite_rewrite) (simp_all only: f2, simp)
  have a: "map attempts (stored_tasks s2) = map attempts (stored_tasks s)"
    unfolding e2 by (simp add: rewrite_def)
  show ?thesis using r e1 e2 a c by blast
qed

lemma added_store:
  "apply_op (Add (example_call tsk p ms now)) empty_store =
     \<lparr>queue_file = Some ([Json (new_task tsk p [] [] ms now)], Newline),
      completed_file = None\<rparr>"
  unfolding apply_op_Add
  by (simp add: write_task_def empty_store_def append_record_def)

lemma one_task_queue_eq:
  "one_task_queue =
     \<lparr>queue_file = Some ([Json (new_task ''backup'' 3 [] [] 5 ''2024-01-02T08:00:00'')], Newline),
      completed_file = None\<rparr>"
  by (simp only: one_task_queue_def added_store)

lemma parses_one_task_queue: "parses one_task_queue"
  by (simp add: one_task_queue_eq parses_def)

lemma stored_one_task_queue:
  "stored_tasks one_task_queue = [new_task ''backup'' 3 [] [] 5 ''2024-01-02T08:00:00'']"
  by (simp add: one_task_queue_eq stored_tasks_def)

theorem run_task_executor_error_witness:
  "parses one_task_queue \<and>
   (\<exists>s1 s2. run_task disk_full example_clock
               (new_task ''backup'' 3 [] [] 5 ''2024-01-02T08:00:00'') one_task_queue
             = Inr \<lparr>writes = [s1, s2],
                    calls = [new_task ''backup'' 3 [] [] 5 ''2024-01-02T08:00:00'']\<rparr>
      \<and> stored_tasks s2 =
          [(new_task ''backup'' 3 [] [] 5 ''2024-01-02T08:00:00'')
             \<lparr>status := ''failed'', started_at := Some ''2024-01-02T09:00:00'',
              error := Some ''disk full'', failed_at := Some ''2024-01-02T09:00:07''\<rparr>])"
  using parses_one_task_queue
    run_task_executor_error[OF parses_one_task_queue,
      where sdk = "\<lambda>t. Inl ''disk full''" and E = "''disk full''"
        and tsk = "new_task ''backup'' 3 [] [] 5 ''2024-01-02T08:00:00''"
        and now = "''2024-01-02T09:00:06''" and clk = example_clock]
  by (auto simp add: disk_full_def stored_one_task_queue rewrite_def example_clock_def)

text \<open>
  The claim as stated fails: after the failed run the task has \<open>attempts = 0\<close>, not 1.
\<close>

theorem run_task_attempts_counterexample:
  "\<exists>s1 s2. run_task disk_full example_clock
               (new_task ''backup'' 3 [] [] 5 ''2024-01-02T08:00:00'') one_task_queue
             = Inr \<lparr>writes = [s1, s2],
                    calls = [new_task ''backup'' 3 [] [] 5 ''2024-01-02T08:00:00'']\<rparr>
      \<and> map (\<lambda>u. (status u, error u, attempts u)) (stored_tasks s1)
            = [(''in_progress'', None, 0)]
      \<and> map (\<lambda>u. (status u, error u, attempts u)) (stored_tasks s2)
            = [(''failed'', Some ''disk full'', 0)]"
proof -
  let ?t = "new_task ''backup'' 3 [] [] 5 ''2024-01-02T08:00:00''"
  have fu: "final_update disk_full example_clock ?t
              = (''failed'', [Error ''disk full'', Failed_at (t_finished example_clock)])"
    by (simp add: final_update_def disk_full_def sdk_executor_def
          execute_task_autonomously_def get_or_def)
  from run_task_parses[OF parses_one_task_queue, of disk_full example_clock ?t] fu
  obtain s1 s2 where
    r: "run_task disk_full example_clock ?t one_task_queue
          = Inr \<lparr>writes = [s1, s2], calls = [?t]\<rparr>"
    and t1: "stored_tasks s1 =
         rewrite (task_id ?t)
           (touch ''in_progress'' [Started_at (t_started example_clock)]
              (t_stamped example_clock 0)) (stored_tasks one_task_queue)"
    and t2: "stored_tasks s2 =
         rewrite (task_id ?t)
           (touch ''failed'' [Error ''disk full'', Failed_at (t_finished example_clock)]
              (t_stamped example_clock 0)) (stored_tasks s1)"
    by auto
  have a1: "map (\<lambda>u. (status u, error u, attempts u)) (stored_tasks s1)
            = [(''in_progress'', None, 0)]"
    unfolding t1 by (simp add: stored_one_task_queue rewrite_def touch_eq new_task_def)
  have a2: "map (\<lambda>u. (status u, error u, attempts u)) (stored_tasks s2)
            = [(''failed'', Some ''disk full'', 0)]"
    unfolding t2 t1
    by (simp add: stored_one_task_queue rewrite_def touch_eq touch_kept new_task_def)
  show ?thesis using r a1 a2 by (intro exI[of _ s1] exI[of _ s2]) simp
qed

lemma rewrite_other:
  "filter (\<lambda>u. task_id u \<noteq> tid) (rewrite tid f ts) = filter (\<lambda>u. task_id u \<noteq> tid) ts"
  if "\<And>t. task_id (f t) = task_id t"
  using that by (induction ts) (auto simp: rewrite_def)

lemma rewrite_at_other:
  "filter (\<lambda>u. task_id u \<noteq> tid) (rewrite_at tid f k ts) = filter (\<lambda>u. task_id u \<noteq> tid) ts"
  if "\<And>j t. task_id (f j t) = task_id t"
  using that by (induction ts arbitrary: k) auto

text \<open>
  One pass of the loop, on every store. The block under \<^verbatim>\<open>if task:\<close> has no check of
  the task's status; the only guard is the filter of \<^verbatim>\<open>get_next_task\<close>. When the queue
  file has a line that \<^verbatim>\<open>get_next_task\<close> cannot process, the pass raises before any write.
  When no task is pending there is no status write and no executor call. Otherwise the
  pass makes one executor call, with the task \<^verbatim>\<open>get_next_task\<close> selected, which is a
  \<^verbatim>\<open>pending\<close> task of the store, and two status writes; the first sets every record of
  that id to \<^verbatim>\<open>in_progress\<close>, and both leave every record of another id as it was.
\<close>

lemma poll_once_outcome:
  "case first_unreadable (lines_of (queue_file s)) of
     Some e \<Rightarrow> poll_once exec clk s = Inl e
   | None \<Rightarrow>
       (if pending_tasks s = [] then poll_once exec clk s = Inr \<lparr>writes = [], calls = []\<rparr>
        else (\<exists>t s1 s2. get_next_task s = Inr (Some t)
                \<and> t \<in> set (stored_tasks s) \<and> status t = ''pending''
                \<and> poll_once exec clk s = Inr \<lparr>writes = [s1, s2], calls = [t]\<rparr>
                \<and> stored_tasks s1 =
                    rewrite (task_id t)
                      (\<lambda>u. u\<lparr>status := ''in_progress'', started_at := Some (t_started clk)\<rparr>)
                      (stored_tasks s)
                \<and> filter (\<lambda>u. task_id u \<noteq> task_id t) (stored_tasks s2)
                    = filter (\<lambda>u. task_id u \<noteq> task_id t) (stored_tasks s)))"
proof (cases "first_unreadable (lines_of (queue_file s))")
  case (Some e)
  then show ?thesis by (simp add: poll_once_def get_next_task_eq)
next
  case None
  then have p: "parses s"
    by (simp add: first_unreadable_None parses_def)
  show ?thesis
  proof (cases "pending_tasks s = []")
    case True
    then have "get_next_task s = Inr None"
      using get_next_task_parses[OF p] by simp
    then have "poll_once exec clk s = Inr \<lparr>writes = [], calls = []\<rparr>"
      by (simp add: poll_once_def)
    with True None show ?thesis by simp
  next
    case False
    then have "sort_key next_key (pending_tasks s) \<noteq> []"
      by (metis length_0_conv length_sort)
    then obtain t rest where sk: "sort_key next_key (pending_tasks s) = t # rest"
      by (cases "sort_key next_key (pending_tasks s)") auto
    then have g: "get_next_task s = Inr (Some t)"
      using get_next_task_parses[OF p] by simp
    have "t \<in> set (sort_key next_key (pending_tasks s))" using sk by simp
    then have m: "t \<in> set (stored_tasks s) \<and> status t = ''pending''"
      by (simp add: pending_tasks_def)
    from run_task_parses[OF p, of exec clk t] obtain s1 s2 where
      r: "run_task exec clk t s = Inr \<lparr>writes = [s1, s2], calls = [t]\<rparr>"
      and t1: "stored_tasks s1 =
           rewrite (task_id t)
             (touch ''in_progress'' [Started_at (t_started clk)] (t_stamped clk 0))
             (stored_tasks s)"
      and t2: "stored_tasks s2 =
           rewrite_at (task_id t)
             (\<lambda>k. touch (fst (final_update exec clk t)) (snd (final_update exec clk t))
                (t_stamped clk k)) 0 (stored_tasks s1)"
      by blast
    have f1: "touch ''in_progress'' [Started_at (t_started clk)] (t_stamped clk 0)
                = (\<lambda>u. u\<lparr>status := ''in_progress'', started_at := Some (t_started clk)\<rparr>)"
      by (rule ext) (simp add: touch_eq)
    have e1: "stored_tasks s1 =
           rewrite (task_id t)
             (\<lambda>u. u\<lparr>status := ''in_progress'', started_at := Some (t_started clk)\<rparr>)
             (stored_tasks s)"
      using t1 by (simp only: f1)
    have o1: "filter (\<lambda>u. task_id u \<noteq> task_id t) (stored_tasks s1)
                = filter (\<lambda>u. task_id u \<noteq> task_id t) (stored_tasks s)"
      unfolding t1 by (rule rewrite_other) (simp add: touch_kept)
    have o2: "filter (\<lambda>u. task_id u \<noteq> task_id t) (stored_tasks s2)
                = filter (\<lambda>u. task_id u \<noteq> task_id t) (stored_tasks s)"
      unfolding t2 using o1 by (subst rewrite_at_other) (simp_all add: touch_kept)
    have po: "poll_once exec clk s = Inr \<lparr>writes = [s1, s2], calls = [t]\<rparr>"
      using g r by (simp add: poll_once_def)
    have "\<exists>t s1 s2. get_next_task s = Inr (Some t)
                \<and> t \<in> set (stored_tasks s) \<and> status t = ''pending''
                \<and> poll_once exec clk s = Inr \<lparr>writes = [s1, s2], calls = [t]\<rparr>
                \<and> stored_tasks s1 =
                    rewrite (task_id t)
                      (\<lambda>u. u\<lparr>status := ''in_progress'', started_at := Some (t_started clk)\<rparr>)
                      (stored_tasks s)
                \<and> filter (\<lambda>u. task_id u \<noteq> task_id t) (stored_tasks s2)
                    = filter (\<lambda>u. task_id u \<noteq> task_id t) (stored_tasks s)"
      using g m po e1 o2 by (intro exI[of _ t] exI[of _ s1] exI[of _ s2]) simp
    with False None show ?thesis by simp
  qed
qed

subsection \<open>Two tasks under one id\<close>

lemma finished_store_facts:
  "parses finished_store \<and> newline_terminated (queue_file finished_store)
   \<and> stored_tasks finished_store =
       [touch ''completed'' [] ''2024-01-02T08:00:03''
          (new_task ''A'' 3 [] [] 5 ''2024-01-02T08:00:00.005900'')]"
proof -
  let ?a = "new_task ''A'' 3 [] [] 5 ''2024-01-02T08:00:00.005900''"
  let ?s = "\<lparr>queue_file = Some ([Json ?a], Newline), completed_file = None\<rparr>"
  have p: "parses ?s" by (simp add: parses_def)
  have t: "stored_tasks ?s = [?a]" by (simp add: stored_tasks_def)
  have i: "task_id ?a = ''task_5''" by (simp add: new_task_def str_int_5)
  from update_task_status_parses[OF p, of "''task_5''" "''completed''" "[]"
      "steady ''2024-01-02T08:00:03''"]
  obtain r s' where
    u: "update_task_status ''task_5'' ''completed'' [] (steady ''2024-01-02T08:00:03'') ?s
          = Inr (r, s')"
    and p': "parses s'" and n': "newline_terminated (queue_file s')"
    and t': "stored_tasks s' =
         rewrite_at ''task_5'' (\<lambda>k. touch ''completed'' [] (steady ''2024-01-02T08:00:03'' k)) 0
           (stored_tasks ?s)"
    by blast
  have f: "finished_store = s'"
    unfolding finished_store_def added_store using u by simp
  have "stored_tasks s' = [touch ''completed'' [] ''2024-01-02T08:00:03'' ?a]"
    unfolding t' t using i by (simp add: steady_def)
  with p' n' f show ?thesis by simp
qed

lemma collision_store_facts:
  "parses collision_store
   \<and> add_call_task (example_call ''B'' 3 5 ''2024-01-02T08:00:00.005100'') finished_store
       = Inr (''task_5'', collision_store)
   \<and> stored_tasks collision_store =
       [touch ''completed'' [] ''2024-01-02T08:00:03''
          (new_task ''A'' 3 [] [] 5 ''2024-01-02T08:00:00.005900''),
        new_task ''B'' 3 [] [] 5 ''2024-01-02T08:00:00.005100'']"
proof -
  let ?b = "new_task ''B'' 3 [] [] 5 ''2024-01-02T08:00:00.005100''"
  have n: "newline_terminated (queue_file finished_store)"
    using finished_store_facts by simp
  have c: "collision_store = snd (write_task ?b finished_store)"
    by (simp only: collision_store_def apply_op_Add)
  have a: "add_call_task (example_call ''B'' 3 5 ''2024-01-02T08:00:00.005100'') finished_store
             = Inr (write_task ?b finished_store)"
    by (simp add: add_call_task_def add_task_def example_call_def)
  have i: "fst (write_task ?b finished_store) = ''task_5''"
    by (simp add: write_task_other new_task_def str_int_5)
  have "add_call_task (example_call ''B'' 3 5 ''2024-01-02T08:00:00.005100'') finished_store
          = Inr (''task_5'', collision_store)"
    unfolding a c using i by (simp add: prod_eq_iff)
  moreover have "parses collision_store"
    unfolding c using write_task_terminated(2)[OF n, of ?b] finished_store_facts by simp
  moreover have "stored_tasks collision_store =
       [touch ''completed'' [] ''2024-01-02T08:00:03''
          (new_task ''A'' 3 [] [] 5 ''2024-01-02T08:00:00.005900''), ?b]"
    unfolding c using write_task_terminated(1)[OF n, of ?b] finished_store_facts by simp
  ultimately show ?thesis by simp
qed

text \<open>
  C3 at a store in which a finished task and a pending task have the same id. \<^verbatim>\<open>A\<close> is
  \<^verbatim>\<open>completed\<close> and \<^verbatim>\<open>B\<close> is \<^verbatim>\<open>pending\<close>. One pass of the loop hands \<^verbatim>\<open>B\<close>, and only
  \<^verbatim>\<open>B\<close>, to the executor; its two status writes rewrite the record of the finished task
  \<^verbatim>\<open>A\<close> as well, to \<^verbatim>\<open>in_progress\<close> and then to \<^verbatim>\<open>failed\<close>.
\<close>

theorem poll_once_rewrites_finished_task:
  "map task_id (stored_tasks collision_store) = [''task_5'', ''task_5'']
   \<and> statuses_of collision_store = [(''A'', ''completed''), (''B'', ''pending'')]
   \<and> pass_calls (poll_once disk_full example_clock collision_store) = [''B'']
   \<and> pass_writes (poll_once disk_full example_clock collision_store) =
       [[(''A'', ''in_progress''), (''B'', ''in_progress'')],
        [(''A'', ''failed''), (''B'', ''failed'')]]"
proof -
  let ?a = "touch ''completed'' [] ''2024-01-02T08:00:03''
              (new_task ''A'' 3 [] [] 5 ''2024-01-02T08:00:00.005900'')"
  let ?b = "new_task ''B'' 3 [] [] 5 ''2024-01-02T08:00:00.005100''"
  have p: "parses collision_store" and t: "stored_tasks collision_store = [?a, ?b]"
    using collision_store_facts by simp_all
  have ia: "task_id ?a = ''task_5''" and ib: "task_id ?b = ''task_5''"
    by (simp_all add: touch_kept) (simp_all add: new_task_def str_int_5)
  have na: "task ?a = ''A''" and nb: "task ?b = ''B''"
    by (simp_all add: touch_kept) (simp_all add: new_task_def)
  have sa: "status ?a = ''completed''" and sb: "status ?b = ''pending''"
    by (simp_all add: touch_kept) (simp_all add: new_task_def)
  have pd: "pending_tasks collision_store = [?b]"
    unfolding pending_tasks_def t using sa sb by simp
  have g: "get_next_task collision_store = Inr (Some ?b)"
    using get_next_task_parses[OF p] pd by simp
  have fu: "final_update disk_full example_clock ?b
              = (''failed'', [Error ''disk full'', Failed_at (t_finished example_clock)])"
    by (simp add: final_update_def disk_full_def sdk_executor_def
          execute_task_autonomously_def get_or_def)
  from run_task_parses[OF p, of disk_full example_clock ?b] fu
  obtain s1 s2 where
    r: "run_task disk_full example_clock ?b collision_store
          = Inr \<lparr>writes = [s1, s2], calls = [?b]\<rparr>"
    and t1: "stored_tasks s1 =
         rewrite (task_id ?b)
           (touch ''in_progress'' [Started_at (t_started example_clock)]
              (t_stamped example_clock 0)) (stored_tasks collision_store)"
    and t2: "stored_tasks s2 =
         rewrite (task_id ?b)
           (touch ''failed'' [Error ''disk full'', Failed_at (t_finished example_clock)]
              (t_stamped example_clock 0)) (stored_tasks s1)"
    by auto
  have po: "poll_once disk_full example_clock collision_store
              = Inr \<lparr>writes = [s1, s2], calls = [?b]\<rparr>"
    using g r by (simp add: poll_once_def)
  have w1: "statuses_of s1 = [(''A'', ''in_progress''), (''B'', ''in_progress'')]"
    unfolding statuses_of_def t1 t ib using ia ib na nb
    by (simp add: rewrite_def touch_kept)
  have w2: "statuses_of s2 = [(''A'', ''failed''), (''B'', ''failed'')]"
    unfolding statuses_of_def t2 t1 t ib using ia ib na nb
    by (simp add: rewrite_def touch_kept)
  have i: "map task_id (stored_tasks collision_store) = [''task_5'', ''task_5'']"
    unfolding t using ia ib by simp
  have s: "statuses_of collision_store = [(''A'', ''completed''), (''B'', ''pending'')]"
    unfolding statuses_of_def t using na nb sa sb by simp
  show ?thesis
    unfolding po using i s w1 w2 nb by (simp add: pass_calls_def pass_writes_def)
qed

text \<open>
  C9 at the same store. \<^verbatim>\<open>add_task\<close> for \<^verbatim>\<open>B\<close> returns the id \<^verbatim>\<open>task_5\<close>, which the
  finished task \<^verbatim>\<open>A\<close> holds already. The listing has two records under the returned id,
  and the first of them is \<^verbatim>\<open>A\<close>, whose status is \<^verbatim>\<open>completed\<close>.
\<close>

theorem add_then_list_finds_finished_task:
  "statuses_of finished_store = [(''A'', ''completed'')]
   \<and> add_call_task (example_call ''B'' 3 5 ''2024-01-02T08:00:00.005100'') finished_store
       = Inr (''task_5'', collision_store)
   \<and> (\<exists>ts. get_all_tasks None None collision_store = Inr ts
         \<and> map (\<lambda>u. (task u, status u)) (filter (\<lambda>u. task_id u = ''task_5'') ts)
             = [(''A'', ''completed''), (''B'', ''pending'')])"
proof -
  let ?a = "touch ''completed'' [] ''2024-01-02T08:00:03''
              (new_task ''A'' 3 [] [] 5 ''2024-01-02T08:00:00.005900'')"
  let ?b = "new_task ''B'' 3 [] [] 5 ''2024-01-02T08:00:00.005100''"
  have p: "parses collision_store" and t: "stored_tasks collision_store = [?a, ?b]"
    using collision_store_facts by simp_all
  have ia: "task_id ?a = ''task_5''" and ib: "task_id ?b = ''task_5''"
    by (simp_all add: touch_kept) (simp_all add: new_task_def str_int_5)
  have na: "task ?a = ''A''" and nb: "task ?b = ''B''"
    by (simp_all add: touch_kept) (simp_all add: new_task_def)
  have sa: "status ?a = ''completed''" and sb: "status ?b = ''pending''"
    by (simp_all add: touch_kept) (simp_all add: new_task_def)
  have ca: "created_at ?a = ''2024-01-02T08:00:00.005900''"
    and cb: "created_at ?b = ''2024-01-02T08:00:00.005100''"
    by (simp_all add: touch_eq new_task_def)
  have o: "sort_key_reverse created_at [?a, ?b] = [?a, ?b]"
    unfolding sort_key_reverse_def using ca cb by simp
  have l: "get_all_tasks None None collision_store = Inr [?a, ?b]"
    using get_all_tasks_parses[OF p, of None None] t o by simp
  have f: "statuses_of finished_store = [(''A'', ''completed'')]"
    using finished_store_facts na sa by (simp add: statuses_of_def)
  have m: "map (\<lambda>u. (task u, status u)) (filter (\<lambda>u. task_id u = ''task_5'') [?a, ?b])
             = [(''A'', ''completed''), (''B'', ''pending'')]"
    using ia ib na nb sa sb by simp
  show ?thesis
    using f collision_store_facts l m by simp
qed

subsection \<open>The life cycle of a task\<close>

lemma rewrite_cases:
  "u \<in> set (rewrite tid f ts) \<Longrightarrow>
     (\<exists>t\<in>set ts. task_id t = tid \<and> u = f t) \<or> (u \<in> set ts \<and> task_id u \<noteq> tid)"
  by (auto simp: rewrite_def)

lemma rewrite_at_cases:
  "u \<in> set (rewrite_at tid f k ts) \<Longrightarrow>
     (\<exists>t\<in>set ts. \<exists>j. task_id t = tid \<and> u = f j t) \<or> (u \<in> set ts \<and> task_id u \<noteq> tid)"
proof (induction ts arbitrary: k)
  case Nil
  then show ?case by simp
next
  case (Cons a ts)
  show ?case
  proof (cases "u \<in> set (rewrite_at tid f (if task_id a = tid then Suc k else k) ts)")
    case True
    from Cons.IH[OF True] show ?thesis by auto
  next
    case False
    with Cons.prems have "u = (if task_id a = tid then f k a else a)"
      by (auto split: if_splits)
    then show ?thesis by (cases "task_id a = tid") auto
  qed
qed

lemma not_terminal_in_progress: "\<not> terminal ''in_progress''"
  by (simp add: terminal_def)

lemma in_progress_step:
  assumes "list_all (\<lambda>t. terminal (status t) \<longrightarrow> task_id t \<in> set seen) ts"
  shows "list_all (\<lambda>t. terminal (status t) \<longrightarrow> task_id t \<in> set (seen @ extra))
           (rewrite tid (touch ''in_progress'' kwargs now) ts)"
proof -
  have "terminal (status u) \<longrightarrow> task_id u \<in> set (seen @ extra)"
    if u: "u \<in> set (rewrite tid (touch ''in_progress'' kwargs now) ts)" for u
    using rewrite_cases[OF u]
  proof (elim disjE bexE conjE)
    fix t
    assume "u = touch ''in_progress'' kwargs now t"
    then show ?thesis by (simp add: touch_kept not_terminal_in_progress)
  next
    assume "u \<in> set ts"
    with assms have "terminal (status u) \<longrightarrow> task_id u \<in> set seen"
      by (simp add: list_all_iff)
    then show ?thesis by simp
  qed
  then show ?thesis by (simp add: list_all_iff)
qed

lemma terminal_step:
  assumes "list_all (\<lambda>t. terminal (status t) \<longrightarrow> task_id t \<in> set seen) ts"
    and ts1: "ts1 = rewrite tid (touch ''in_progress'' kwargs now) ts"
  shows "list_all (\<lambda>t. terminal (status t) \<longrightarrow>
             task_id t \<in> set ((seen @ extra)
                @ map task_id (filter (\<lambda>t. status t = ''in_progress'') ts1)))
           (rewrite_at tid (\<lambda>k. touch st kwargs' (clock k)) k0 ts1)"
proof -
  have "task_id u \<in> set ((seen @ extra)
                @ map task_id (filter (\<lambda>t. status t = ''in_progress'') ts1))"
    if u: "u \<in> set (rewrite_at tid (\<lambda>k. touch st kwargs' (clock k)) k0 ts1)"
      and tm: "terminal (status u)"
    for u
    using rewrite_at_cases[OF u]
  proof (elim disjE bexE exE conjE)
    fix u1 j
    assume a: "u1 \<in> set ts1" "task_id u1 = tid" "u = touch st kwargs' (clock j) u1"
    have "status u1 = ''in_progress''"
      using rewrite_cases[OF a(1)[unfolded ts1]]
    proof (elim disjE bexE conjE)
      fix t
      assume "u1 = touch ''in_progress'' kwargs now t"
      then show ?thesis by (simp add: touch_kept)
    next
      assume "task_id u1 \<noteq> tid"
      with a(2) show ?thesis by simp
    qed
    with a(1) have "u1 \<in> {t \<in> set ts1. status t = ''in_progress''}" by simp
    then have "task_id u1 \<in> task_id ` {t \<in> set ts1. status t = ''in_progress''}"
      by (rule imageI)
    moreover have "task_id u = task_id u1"
      using a(3) by (simp add: touch_kept)
    ultimately show ?thesis by simp
  next
    assume b: "u \<in> set ts1" "task_id u \<noteq> tid"
    have "u \<in> set ts"
      using rewrite_cases[OF b(1)[unfolded ts1]]
    proof (elim disjE bexE conjE)
      fix t
      assume "task_id t = tid" "u = touch ''in_progress'' kwargs now t"
      with b(2) show ?thesis by (simp add: touch_kept)
    next
      assume "u \<in> set ts"
      then show ?thesis .
    qed
    with assms(1) have "terminal (status u) \<longrightarrow> task_id u \<in> set seen"
      by (simp add: list_all_iff)
    with tm show ?thesis by simp
  qed
  then show ?thesis by (simp add: list_all_iff)
qed

lemma poll_loop_invariant:
  assumes "parses s"
    and "list_all (\<lambda>t. terminal (status t) \<longrightarrow> task_id t \<in> set seen) (stored_tasks s)"
  shows "\<exists>tr. poll_loop n execs clks s = Inr tr \<and> passed_through seen (s # tr)"
  using assms
proof (induction n arbitrary: s seen execs clks)
  case 0
  then show ?case by simp
next
  case (Suc n)
  let ?ex = "execs 0" and ?ck = "clks 0"
  let ?execs' = "\<lambda>k. execs (Suc k)" and ?clks' = "\<lambda>k. clks (Suc k)"
  show ?case
  proof (cases "pending_tasks s = []")
    case True
    then have "get_next_task s = Inr None"
      using get_next_task_parses[OF Suc.prems(1)] by simp
    then have p: "poll_once ?ex ?ck s = Inr \<lparr>writes = [], calls = []\<rparr>"
      by (simp add: poll_once_def)
    from Suc.IH[OF Suc.prems, of ?execs' ?clks'] obtain tr where
      "poll_loop n ?execs' ?clks' s = Inr tr" "passed_through seen (s # tr)"
      by blast
    with p show ?thesis by (simp add: store_after_def)
  next
    case False
    then have "sort_key next_key (pending_tasks s) \<noteq> []"
      by (metis length_0_conv length_sort)
    then obtain t rest where "sort_key next_key (pending_tasks s) = t # rest"
      by (cases "sort_key next_key (pending_tasks s)") auto
    then have g: "get_next_task s = Inr (Some t)"
      using get_next_task_parses[OF Suc.prems(1)] by simp
    from run_task_parses[OF Suc.prems(1), of ?ex ?ck t] obtain s1 s2 where
      r: "run_task ?ex ?ck t s = Inr \<lparr>writes = [s1, s2], calls = [t]\<rparr>"
      and p2: "parses s2"
      and t1: "stored_tasks s1 =
           rewrite (task_id t)
             (touch ''in_progress'' [Started_at (t_started ?ck)] (t_stamped ?ck 0))
             (stored_tasks s)"
      and t2: "stored_tasks s2 =
           rewrite_at (task_id t)
             (\<lambda>k. touch (fst (final_update ?ex ?ck t)) (snd (final_update ?ex ?ck t))
                (t_stamped ?ck k)) 0 (stored_tasks s1)"
      by blast
    have p: "poll_once ?ex ?ck s = Inr \<lparr>writes = [s1, s2], calls = [t]\<rparr>"
      using g r by (simp add: poll_once_def)
    let ?seen1 = "seen @ in_progress_ids s"
    let ?seen2 = "?seen1 @ in_progress_ids s1"
    have i1: "list_all (\<lambda>t. terminal (status t) \<longrightarrow> task_id t \<in> set ?seen1) (stored_tasks s1)"
      unfolding t1 by (rule in_progress_step[OF Suc.prems(2)])
    have i2: "list_all (\<lambda>t. terminal (status t) \<longrightarrow> task_id t \<in> set ?seen2) (stored_tasks s2)"
      unfolding t2 in_progress_ids_def
      by (rule terminal_step[OF Suc.prems(2) t1])
    from Suc.IH[OF p2 i2, of ?execs' ?clks'] obtain tr where
      l: "poll_loop n ?execs' ?clks' s2 = Inr tr" and pt: "passed_through ?seen2 (s2 # tr)"
      by blast
    have "poll_loop (Suc n) execs clks s = Inr ([s1, s2] @ tr)"
      using p l by (simp add: store_after_def)
    moreover have "passed_through seen (s # [s1, s2] @ tr)"
      using Suc.prems(2) i1 pt by simp
    ultimately show ?thesis by blast
  qed
qed

text \<open>
  C7, as the code has it. \<^verbatim>\<open>update_task_status\<close> writes whatever status it is given,
  and the web route passes the requested status straight to it; the order of the life
  cycle is kept by the polling loop alone. In every run of the loop, of any number of
  passes and with any behaviour of the executor, from a store whose queue file parses
  and holds no \<^verbatim>\<open>completed\<close> or \<^verbatim>\<open>failed\<close> task, the loop does not raise, and every
  task that is \<^verbatim>\<open>completed\<close> or \<^verbatim>\<open>failed\<close> in a store the loop wrote was \<^verbatim>\<open>in_progress\<close>
  in an earlier store of the run.
\<close>

theorem poll_loop_passes_through:
  assumes "parses s" and "list_all (\<lambda>t. \<not> terminal (status t)) (stored_tasks s)"
  shows "\<exists>tr. poll_loop n execs clks s = Inr tr \<and> passed_through [] (s # tr)"
proof -
  have "list_all (\<lambda>t. terminal (status t) \<longrightarrow> task_id t \<in> set []) (stored_tasks s)"
    using assms(2) by (simp add: list_all_iff)
  with assms(1) show ?thesis by (rule poll_loop_invariant)
qed

theorem poll_loop_passes_through_witness:
  "parses one_task_queue
   \<and> list_all (\<lambda>t. \<not> terminal (status t)) (stored_tasks one_task_queue)
   \<and> (\<exists>tr. poll_loop 2 (\<lambda>k. disk_full) (\<lambda>k. example_clock) one_task_queue = Inr tr
         \<and> passed_through [] (one_task_queue # tr))"
proof -
  have l: "list_all (\<lambda>t. \<not> terminal (status t)) (stored_tasks one_task_queue)"
    by (simp add: stored_one_task_queue new_task_def terminal_def)
  show ?thesis
    using parses_one_task_queue l
      poll_loop_passes_through[OF parses_one_task_queue l, of 2 "\<lambda>k. disk_full"
        "\<lambda>k. example_clock"]
    by simp
qed

text \<open>
  The claim as stated fails: after \<^verbatim>\<open>add_task\<close>, one \<^verbatim>\<open>update_task_status\<close> with the
  status \<^verbatim>\<open>completed\<close>, as the web route issues it, completes a task that was never
  \<^verbatim>\<open>in_progress\<close>.
\<close>

theorem update_skips_in_progress_counterexample:
  "\<not> passed_through []
       (store_states
          [Add (example_call ''backup'' 3 5 ''2024-01-02T08:00:00''),
           UpdateStatus ''task_5'' ''completed'' [] (steady ''2024-01-02T09:00:08'')]
          empty_store)"
proof -
  let ?t = "new_task ''backup'' 3 [] [] 5 ''2024-01-02T08:00:00''"
  let ?up = "UpdateStatus ''task_5'' ''completed'' [] (steady ''2024-01-02T09:00:08'')"
  have a: "apply_op (Add (example_call ''backup'' 3 5 ''2024-01-02T08:00:00'')) empty_store
             = one_task_queue"
    by (simp only: one_task_queue_def)
  have i: "task_id ?t = ''task_5''"
    by (simp add: new_task_def str_int_5)
  from update_task_status_rewrite[OF parses_one_task_queue, of "''task_5''" "''completed''"
      "[]" "steady ''2024-01-02T09:00:08''"]
  obtain r s' where
    u: "update_task_status ''task_5'' ''completed'' [] (steady ''2024-01-02T09:00:08'')
          one_task_queue = Inr (r, s')"
    and t: "stored_tasks s' =
              rewrite_at ''task_5''
                (\<lambda>k. touch ''completed'' [] (steady ''2024-01-02T09:00:08'' k)) 0
                (stored_tasks one_task_queue)"
    by blast
  have b: "apply_op ?up one_task_queue = s'"
    using u by simp
  have c: "stored_tasks s' = [touch ''completed'' [] ''2024-01-02T09:00:08'' ?t]"
    unfolding t stored_one_task_queue using i by (simp add: steady_def)
  have n: "\<not> list_all (\<lambda>t. terminal (status t) \<longrightarrow> task_id t \<in> set [])
           (stored_tasks s')"
    unfolding c by (simp add: touch_kept terminal_def)
  have e: "in_progress_ids empty_store = []"
    by (simp add: in_progress_ids_def stored_tasks_def empty_store_def)
  have q: "in_progress_ids one_task_queue = []"
    by (simp add: in_progress_ids_def stored_one_task_queue new_task_def)
  have np: "\<not> passed_through [] [empty_store, one_task_queue, s']"
    using n by (simp only: passed_through.simps e q append_Nil simp_thms)
  have eq: "store_states
          [Add (example_call ''backup'' 3 5 ''2024-01-02T08:00:00''), ?up] empty_store
          = [empty_store, one_task_queue, s']"
    by (simp only: store_states.simps a b)
  show ?thesis unfolding eq by (rule np)
qed

end
